theory Spec2Isabelle
  imports Complex_Main "HOL-Library.Multiset"
begin

section \<open>Constants and configuration (main.js, part 1)\<close>

text \<open>The constants are integers; where the program computes with them they are read as numbers.\<close>

definition CELL_WIDTH :: nat where "CELL_WIDTH = 100"
definition CELL_HEIGHT :: nat where "CELL_HEIGHT = 70"
definition YEARS_COUNT :: nat where "YEARS_COUNT = 10"
definition MONTHS_COUNT :: nat where "MONTHS_COUNT = 12"
definition TEMP_MIN :: nat where "TEMP_MIN = 0"
definition TEMP_MAX :: nat where "TEMP_MAX = 40"

section \<open>JavaScript values\<close>

text \<open>
  A JavaScript number, as the unary plus on a CSV field gives it: NaN, one of the two
  infinities, or a finite value. Finite values are modelled by reals (every finite double
  is one); the two zeros are identified, as every comparison of the program identifies
  them.
\<close>

datatype jsnum = NaN | NegInfinity | Num real | PosInfinity

text \<open>The relational operators on numbers: every comparison with NaN is false.\<close>

fun js_less :: "jsnum \<Rightarrow> jsnum \<Rightarrow> bool" where
  "js_less (Num a) (Num b) = (a < b)"
| "js_less NegInfinity (Num b) = True"
| "js_less NegInfinity PosInfinity = True"
| "js_less (Num a) PosInfinity = True"
| "js_less _ _ = False"

fun js_ge :: "jsnum \<Rightarrow> jsnum \<Rightarrow> bool" where
  "js_ge (Num a) (Num b) = (a \<ge> b)"
| "js_ge PosInfinity (Num b) = True"
| "js_ge PosInfinity PosInfinity = True"
| "js_ge PosInfinity NegInfinity = True"
| "js_ge (Num a) NegInfinity = True"
| "js_ge NegInfinity NegInfinity = True"
| "js_ge _ _ = False"

text \<open>
  The arithmetic the scales do on a number: sum, difference and product with NaN and
  the infinities as IEEE 754 has them (an infinity minus itself and zero times an
  infinity are NaN), and the quotient by a finite number other than zero.
\<close>

fun js_plus :: "jsnum \<Rightarrow> jsnum \<Rightarrow> jsnum" where
  "js_plus NaN _ = NaN"
| "js_plus _ NaN = NaN"
| "js_plus (Num a) (Num b) = Num (a + b)"
| "js_plus PosInfinity NegInfinity = NaN"
| "js_plus NegInfinity PosInfinity = NaN"
| "js_plus PosInfinity _ = PosInfinity"
| "js_plus _ PosInfinity = PosInfinity"
| "js_plus NegInfinity _ = NegInfinity"
| "js_plus _ NegInfinity = NegInfinity"

fun js_neg :: "jsnum \<Rightarrow> jsnum" where
  "js_neg NaN = NaN"
| "js_neg NegInfinity = PosInfinity"
| "js_neg (Num a) = Num (- a)"
| "js_neg PosInfinity = NegInfinity"

definition js_minus :: "jsnum \<Rightarrow> jsnum \<Rightarrow> jsnum" where
  "js_minus a b = js_plus a (js_neg b)"

fun js_times :: "jsnum \<Rightarrow> jsnum \<Rightarrow> jsnum" where
  "js_times (Num a) (Num b) = Num (a * b)"
| "js_times a b =
     (if a = NaN \<or> b = NaN \<or> a = Num 0 \<or> b = Num 0 then NaN
      else if js_less (Num 0) a = js_less (Num 0) b then PosInfinity
      else NegInfinity)"

fun js_div :: "jsnum \<Rightarrow> real \<Rightarrow> jsnum" where
  "js_div NaN b = NaN"
| "js_div (Num a) b = Num (a / b)"
| "js_div PosInfinity b = (if 0 < b then PosInfinity else NegInfinity)"
| "js_div NegInfinity b = (if 0 < b then NegInfinity else PosInfinity)"

text \<open>
  A Date object is modelled by what the program reads of it: its time value (the number
  the subtraction in the comparator of \<open>summariseMonth\<close> coerces it to) and its local
  calendar year and month index (\<open>getFullYear()\<close>, \<open>getMonth()\<close>). The dates made by
  \<open>d3.timeParse("%Y-%m-%d")\<close> are valid dates of the years 0 to 9999, so the time
  value is an integer and the year is a natural number.
\<close>

record Date =
  timeValue :: int
  getFullYear :: nat
  getMonth :: nat

text \<open>
  The object the row function of \<open>d3.csv\<close> returns (main.js, lines 50 to 56):
  \<open>d3.timeParse\<close> gives \<open>null\<close> for a string it cannot parse.
\<close>

record Row =
  row_date :: "Date option"
  row_max :: jsnum
  row_min :: jsnum

text \<open>
  A daily record, as every part of the program after line 58 sees it: line 58 calls
  \<open>d.date.getFullYear()\<close> on every row, so a row without a date ends \<open>loadData\<close>
  with a TypeError and every record that is grouped, summarised and drawn has a date.
\<close>

record DailyRecord =
  date :: Date
  max_t :: jsnum
  min_t :: jsnum

datatype error = TypeError

section \<open>Arrays of daily records in a store\<close>

text \<open>
  \<open>Array.prototype.sort\<close> sorts in place, so the arrays of daily records live in a
  store: an address is an index into the list of all arrays allocated so far, and a new
  array gets the next index.
\<close>

type_synonym addr = nat
type_synonym store = "DailyRecord list list"

text \<open>\<open>[...a]\<close>: a new array with the elements of the array at \<open>a\<close>.\<close>

definition spread :: "store \<Rightarrow> addr \<Rightarrow> (addr \<times> store) option" where
  "spread h a = (if a < length h then Some (length h, h @ [h ! a]) else None)"

section \<open>Library functions the program calls\<close>

text \<open>
  \<open>Array.prototype.sort(cmp)\<close>. For a consistent comparator ECMAScript fixes the result:
  a permutation of the array, ordered by the comparator, elements that compare equal in
  their former order (the sort is stable). Any stable sorting algorithm computes it; the
  model is insertion sort. The comparator's result is read by its sign.
\<close>

fun insertBy :: "('a \<Rightarrow> 'a \<Rightarrow> int) \<Rightarrow> 'a \<Rightarrow> 'a list \<Rightarrow> 'a list" where
  "insertBy cmp x [] = [x]"
| "insertBy cmp x (y # ys) = (if cmp x y \<le> 0 then x # y # ys else y # insertBy cmp x ys)"

fun array_sort :: "('a \<Rightarrow> 'a \<Rightarrow> int) \<Rightarrow> 'a list \<Rightarrow> 'a list" where
  "array_sort cmp [] = []"
| "array_sort cmp (x # xs) = insertBy cmp x (array_sort cmp xs)"

text \<open>
  \<open>d3.max(values, valueof)\<close> and \<open>d3.min(values, valueof)\<close>: one pass that keeps the
  largest (smallest) value seen, \<open>undefined\<close> (here \<open>None\<close>) before the first one. The
  test of d3.max is \<open>max < value || (max === undefined && value >= value)\<close>, so a NaN is
  never kept.
\<close>

definition max_step :: "jsnum option \<Rightarrow> jsnum \<Rightarrow> jsnum option" where
  "max_step m v = (case m of
       None \<Rightarrow> (if js_ge v v then Some v else None)
     | Some x \<Rightarrow> (if js_less x v then Some v else Some x))"

definition d3_max :: "'a list \<Rightarrow> ('a \<Rightarrow> jsnum) \<Rightarrow> jsnum option" where
  "d3_max values valueof = foldl (\<lambda>m x. max_step m (valueof x)) None values"

definition min_step :: "jsnum option \<Rightarrow> jsnum \<Rightarrow> jsnum option" where
  "min_step m v = (case m of
       None \<Rightarrow> (if js_ge v v then Some v else None)
     | Some x \<Rightarrow> (if js_less v x then Some v else Some x))"

definition d3_min :: "'a list \<Rightarrow> ('a \<Rightarrow> jsnum) \<Rightarrow> jsnum option" where
  "d3_min values valueof = foldl (\<lambda>m x. min_step m (valueof x)) None values"

section \<open>summariseMonth (main.js, part 2)\<close>

record summary =
  monthlyMax :: "jsnum option"
  monthlyMin :: "jsnum option"
  days :: addr

text \<open>The comparator \<open>(a, b) => a.date - b.date\<close>.\<close>

definition byDate :: "DailyRecord \<Rightarrow> DailyRecord \<Rightarrow> int" where
  "byDate a b = timeValue (date a) - timeValue (date b)"

text \<open>
  The function takes the address of the array \<open>days\<close>. The properties of the object
  literal are evaluated in order: the two aggregates read the array, then \<open>days.sort\<close>
  sorts that same array in place and returns it. \<open>None\<close> is the TypeError of a call
  with something that is not an array.
\<close>

definition summariseMonth :: "store \<Rightarrow> addr \<Rightarrow> (summary \<times> store) option" where
  "summariseMonth h a =
     (if a < length h then
        (let mx = d3_max (h ! a) max_t;
             mn = d3_min (h ! a) min_t;
             h' = h[a := array_sort byDate (h ! a)]
         in Some (\<lparr>monthlyMax = mx, monthlyMin = mn, days = a\<rparr>, h'))
      else None)"

section \<open>loadData (main.js, part 2)\<close>

text \<open>\<open>[...new Set(xs)]\<close>: the distinct elements, each at its first occurrence.\<close>

fun dedup :: "'a list \<Rightarrow> 'a list" where
  "dedup [] = []"
| "dedup (x # xs) = x # removeAll x (dedup xs)"

text \<open>
  \<open>Number::toString\<close> of a non-negative integer: its decimal digits, the characters of
  code 48 to 57.
\<close>

definition digitChar :: "nat \<Rightarrow> char" where
  "digitChar d = char_of (48 + d)"

fun toString :: "nat \<Rightarrow> string" where
  "toString n = (if n < 10 then [digitChar n] else toString (n div 10) @ [digitChar (n mod 10)])"

declare toString.simps [simp del]

text \<open>
  The \<open><\<close> of two strings: the first differing code unit decides, and a proper prefix
  is smaller.
\<close>

fun str_less :: "string \<Rightarrow> string \<Rightarrow> bool" where
  "str_less [] [] = False"
| "str_less [] (y # ys) = True"
| "str_less (x # xs) [] = False"
| "str_less (x # xs) (y # ys) = ((of_char x :: nat) < of_char y \<or> (x = y \<and> str_less xs ys))"

text \<open>
  \<open>Array.prototype.sort()\<close> without a comparator compares the elements converted to
  strings.
\<close>

definition defaultCompare :: "nat \<Rightarrow> nat \<Rightarrow> int" where
  "defaultCompare x y =
     (let xString = toString x; yString = toString y
      in if str_less xString yString then - 1
         else if str_less yString xString then 1
         else 0)"

text \<open>\<open>xs.slice(-n)\<close>: the last \<open>n\<close> elements, all of them when there are fewer.\<close>

definition slice_last :: "nat \<Rightarrow> 'a list \<Rightarrow> 'a list" where
  "slice_last n xs = (if n \<le> length xs then drop (length xs - n) xs else xs)"

fun index_of :: "'a \<Rightarrow> 'a list \<Rightarrow> nat option" where
  "index_of k [] = None"
| "index_of k (x # xs) = (if x = k then Some 0 else map_option Suc (index_of k xs))"

text \<open>
  \<open>d3.group(values, key1, key2)\<close>: a map from the first key to a map from the second
  key to the array of the values with these two keys, in their order in \<open>values\<close>. A key
  is in a map only if some value has it. The arrays are new ones; here they make up the
  store, one per pair of keys.
\<close>

type_synonym nested_map = "nat \<Rightarrow> (nat \<Rightarrow> addr option) option"

definition d3_group ::
  "DailyRecord list \<Rightarrow> (DailyRecord \<Rightarrow> nat) \<Rightarrow> (DailyRecord \<Rightarrow> nat) \<Rightarrow> nested_map \<times> store" where
  "d3_group values key1 key2 =
     (let keys = dedup (map (\<lambda>d. (key1 d, key2 d)) values);
          h = map (\<lambda>k. filter (\<lambda>d. (key1 d, key2 d) = k) values) keys
      in (\<lambda>y. if y \<in> set (map fst keys) then Some (\<lambda>m. index_of (y, m) keys) else None, h))"

text \<open>\<open>nested.get(year)?.get(month)\<close>\<close>

definition get2 :: "nested_map \<Rightarrow> nat \<Rightarrow> nat \<Rightarrow> addr option" where
  "get2 nested y m = (case nested y of None \<Rightarrow> None | Some months \<Rightarrow> months m)"

definition checkRow :: "Row \<Rightarrow> DailyRecord option" where
  "checkRow r = (case row_date r of
       None \<Rightarrow> None
     | Some d \<Rightarrow> Some \<lparr>date = d, max_t = row_max r, min_t = row_min r\<rparr>)"

definition yearOf :: "DailyRecord \<Rightarrow> nat" where
  "yearOf d = getFullYear (date d)"

definition monthOf :: "DailyRecord \<Rightarrow> nat" where
  "monthOf d = getMonth (date d)"

record loaded =
  nested :: nested_map
  years :: "nat list"
  arrays :: store

text \<open>
  The argument is the array \<open>d3.csv\<close> resolves to, the row function applied to every
  row of the file. \<open>years[0]\<close> of an empty array is \<open>undefined\<close>, and no number is
  \<open>>=\<close> it.
\<close>

definition loadData :: "Row list \<Rightarrow> error + loaded" where
  "loadData rows =
     (case those (map checkRow rows) of
        None \<Rightarrow> Inl TypeError
      | Some data \<Rightarrow>
          (let allYears = array_sort defaultCompare (dedup (map yearOf data));
               ys = slice_last YEARS_COUNT allYears;
               startYear = (case ys of [] \<Rightarrow> None | y # _ \<Rightarrow> Some y);
               filtered = filter (\<lambda>d. case startYear of None \<Rightarrow> False | Some s \<Rightarrow> yearOf d \<ge> s) data;
               (n, h) = d3_group filtered yearOf monthOf
           in Inr \<lparr>nested = n, years = ys, arrays = h\<rparr>))"

section \<open>Scales (main.js, part 3)\<close>

text \<open>
  The colour scale: \<open>d3.scaleSequential().domain([TEMP_MIN, TEMP_MAX]).interpolator(i)\<close>
  maps a number \<open>x\<close> to \<open>i((x - TEMP_MIN) * (1 / (TEMP_MAX - TEMP_MIN)))\<close> and
  \<open>undefined\<close> or NaN to \<open>undefined\<close>. The interpolator \<open>d3.interpolateYlOrRd\<close>, from
  a number (never NaN here) to a colour string, is a parameter.
\<close>

type_synonym colour_scale = "jsnum option \<Rightarrow> string option"

definition buildColourScale :: "(jsnum \<Rightarrow> string) \<Rightarrow> colour_scale" where
  "buildColourScale interpolateYlOrRd x =
     (case x of
        None \<Rightarrow> None
      | Some v \<Rightarrow>
          (if v = NaN then None
           else Some (interpolateYlOrRd
                  (js_times (js_minus v (Num (real TEMP_MIN)))
                     (Num (1 / (real TEMP_MAX - real TEMP_MIN)))))))"

text \<open>
  \<open>d3.scaleBand().domain(d).range([r0, r1]).padding(p)\<close>. \<open>padding\<close> sets the outer
  padding to \<open>p\<close> and the inner padding to \<open>min(1, p)\<close>; the alignment is 0.5 and there
  is no rounding. The domain keeps the first occurrence of each value, and a value that
  is not in the domain is mapped to \<open>undefined\<close>.
\<close>

record bandScale =
  b_domain :: "nat list"
  b_range :: "real \<times> real"
  b_padding :: real

definition band_step :: "bandScale \<Rightarrow> real" where
  "band_step s =
     (let n = real (length (dedup (b_domain s)));
          start = min (fst (b_range s)) (snd (b_range s));
          stop = max (fst (b_range s)) (snd (b_range s))
      in (stop - start) / max 1 (n - min 1 (b_padding s) + b_padding s * 2))"

definition band_start :: "bandScale \<Rightarrow> real" where
  "band_start s =
     (let n = real (length (dedup (b_domain s)));
          start = min (fst (b_range s)) (snd (b_range s));
          stop = max (fst (b_range s)) (snd (b_range s))
      in start + (stop - start - band_step s * (n - min 1 (b_padding s))) * (1 / 2))"

definition bandwidth :: "bandScale \<Rightarrow> real" where
  "bandwidth s = band_step s * (1 - min 1 (b_padding s))"

definition band_apply :: "bandScale \<Rightarrow> nat \<Rightarrow> real option" where
  "band_apply s x =
     (let n = length (dedup (b_domain s));
          vals = map (\<lambda>i. band_start s + band_step s * real i) [0..<n];
          rng = (if snd (b_range s) < fst (b_range s) then rev vals else vals)
      in case index_of x (dedup (b_domain s)) of
           None \<Rightarrow> None
         | Some i \<Rightarrow> Some (rng ! i))"

text \<open>
  \<open>d3.scaleLinear().domain([d0, d1]).range([r0, r1])\<close>, not clamped: a NaN is mapped
  to \<open>undefined\<close>, which the line generator reads as NaN; any other \<open>x\<close> is normalised
  to \<open>t = (x - d0) / (d1 - d0)\<close>, to 0.5 when the domain is a single point, and mapped to
  \<open>r0 * (1 - t) + r1 * t\<close>.
\<close>

record linearScale =
  l_domain :: "real \<times> real"
  l_range :: "real \<times> real"

definition linear_apply :: "linearScale \<Rightarrow> jsnum \<Rightarrow> jsnum" where
  "linear_apply s x =
     (if x = NaN then NaN
      else
        (let d0 = fst (l_domain s); d1 = snd (l_domain s);
             r0 = fst (l_range s); r1 = snd (l_range s);
             t = (if d1 - d0 = 0 then Num (1 / 2) else js_div (js_minus x (Num d0)) (d1 - d0))
         in js_plus (js_times (Num r0) (js_minus (Num 1) t)) (js_times (Num r1) t)))"

section \<open>Drawing (main.js, part 4)\<close>

text \<open>The two band scales \<open>drawAxes\<close> builds and returns.\<close>

definition drawAxes :: "nat list \<Rightarrow> bandScale \<times> bandScale" where
  "drawAxes ys =
     (let xScale = \<lparr>b_domain = ys, b_range = (0, real (CELL_WIDTH * length ys)), b_padding = 5 / 100\<rparr>;
          yScale = \<lparr>b_domain = [0..<MONTHS_COUNT], b_range = (0, real (CELL_HEIGHT * MONTHS_COUNT)),
                    b_padding = 5 / 100\<rparr>
      in (xScale, yScale))"

text \<open>A cell is \<open>{ year, month, ...summary }\<close>.\<close>

record cell = summary +
  year :: nat
  month :: nat

text \<open>
  The loop of \<open>drawCells\<close> over the years and, for each year, the months 0 to 11. A
  month with data is copied (\<open>[...monthData]\<close>), the copy is given to
  \<open>summariseMonth\<close>, and the cell is pushed.
\<close>

fun cellsLoop ::
  "nested_map \<Rightarrow> (nat \<times> nat) list \<Rightarrow> cell list \<Rightarrow> store \<Rightarrow> (cell list \<times> store) option" where
  "cellsLoop n [] cells h = Some (cells, h)"
| "cellsLoop n ((y, m) # ks) cells h =
     (case get2 n y m of
        None \<Rightarrow> cellsLoop n ks cells h
      | Some monthData \<Rightarrow>
          (case spread h monthData of
             None \<Rightarrow> None
           | Some (copy, h1) \<Rightarrow>
               (case summariseMonth h1 copy of
                  None \<Rightarrow> None
                | Some (s, h2) \<Rightarrow>
                    cellsLoop n ks
                      (cells @ [\<lparr>monthlyMax = monthlyMax s, monthlyMin = monthlyMin s,
                                 days = days s, year = y, month = m\<rparr>]) h2)))"

definition buildCells :: "nested_map \<Rightarrow> nat list \<Rightarrow> store \<Rightarrow> (cell list \<times> store) option" where
  "buildCells n ys h = cellsLoop n (List.product ys [0..<MONTHS_COUNT]) [] h"

text \<open>
  A path of a mini chart: its class, the array bound to it, and the points the line
  generator gives to the curve, \<open>(xMini(i), yMini(day.max))\<close> or \<open>day.min\<close>.
\<close>

record path =
  p_class :: string
  p_datum :: addr
  p_points :: "(jsnum \<times> jsnum) list"

record miniChart =
  xMini :: linearScale
  yMini :: linearScale
  paths :: "path list"

definition padding :: real where "padding = 4"

definition line_points :: "linearScale \<Rightarrow> linearScale \<Rightarrow> (DailyRecord \<Rightarrow> jsnum) \<Rightarrow> DailyRecord list
    \<Rightarrow> (jsnum \<times> jsnum) list" where
  "line_points xm ym v ds =
     map (\<lambda>(i, day). (linear_apply xm (Num (real i)), linear_apply ym (v day))) (enumerate 0 ds)"

text \<open>
  The body of \<open>groups.each\<close> in \<open>drawMiniCharts\<close> for one cell: nothing is drawn
  (\<open>None\<close>) when \<open>days\<close> is missing or empty; the path of the minima is appended
  before the path of the maxima.
\<close>

definition miniChartOf :: "store \<Rightarrow> addr \<Rightarrow> real \<Rightarrow> real \<Rightarrow> miniChart option" where
  "miniChartOf h a w ht =
     (if \<not> a < length h \<or> length (h ! a) = 0 then None
      else
        (let ds = h ! a;
             xm = \<lparr>l_domain = (0, real (length ds) - 1), l_range = (padding, w - padding)\<rparr>;
             ym = \<lparr>l_domain = (real TEMP_MIN, real TEMP_MAX), l_range = (ht - padding, padding)\<rparr>
         in Some \<lparr>xMini = xm, yMini = ym,
                  paths = [\<lparr>p_class = ''line-min'', p_datum = a, p_points = line_points xm ym min_t ds\<rparr>,
                           \<lparr>p_class = ''line-max'', p_datum = a, p_points = line_points xm ym max_t ds\<rparr>]\<rparr>))"

text \<open>
  A cell group: the \<open>g\<close> element with its bound cell and its translation, its \<open>rect\<close>
  of class \<open>cell\<close> and its mini chart. \<open>r_transition\<close> is the duration in ms of the
  transition last started on the fill, and \<open>r_fill\<close> the value the fill has once no
  transition runs.
\<close>

record cellRect =
  r_class :: string
  r_width :: real
  r_height :: real
  r_rx :: nat
  r_fill :: "string option"
  r_transition :: "nat option"

record cellGroup =
  g_class :: string
  g_datum :: cell
  g_translate :: "real option \<times> real option"
  g_rect :: cellRect
  g_chart :: "miniChart option"

definition fillOf :: "colour_scale \<Rightarrow> bool \<Rightarrow> cell \<Rightarrow> string option" where
  "fillOf colour showMax d = colour (if showMax then monthlyMax d else monthlyMin d)"

definition cellGroupOf ::
  "store \<Rightarrow> bandScale \<Rightarrow> bandScale \<Rightarrow> colour_scale \<Rightarrow> bool \<Rightarrow> cell \<Rightarrow> cellGroup" where
  "cellGroupOf h xScale yScale colour showMax d =
     \<lparr>g_class = ''cell-group'', g_datum = d,
      g_translate = (band_apply xScale (year d), band_apply yScale (month d)),
      g_rect = \<lparr>r_class = ''cell'', r_width = bandwidth xScale, r_height = bandwidth yScale,
                r_rx = 2, r_fill = fillOf colour showMax d, r_transition = None\<rparr>,
      g_chart = miniChartOf h (days d) (bandwidth xScale) (bandwidth yScale)\<rparr>"

text \<open>
  \<open>drawCells\<close>: the data join on the empty selection appends one group per element of
  \<open>cells\<close>, in order. The result is the groups, the array \<open>cells\<close> that the click
  handlers keep, and the store.
\<close>

definition drawCells ::
  "store \<Rightarrow> nested_map \<Rightarrow> nat list \<Rightarrow> bandScale \<times> bandScale \<Rightarrow> colour_scale \<Rightarrow> bool
    \<Rightarrow> (cellGroup list \<times> cell list \<times> store) option" where
  "drawCells h n ys scales colour showMax =
     (case buildCells n ys h of
        None \<Rightarrow> None
      | Some (cells, h') \<Rightarrow>
          Some (map (cellGroupOf h' (fst scales) (snd scales) colour showMax) cells, cells, h'))"

record gradientStop =
  s_offset :: real
  s_color :: "string option"

record legendText =
  t_class :: string
  t_x :: nat
  t_y :: nat
  t_text :: string

text \<open>
  The legend: the gradient (its id, its vector \<open>x1, y1, x2, y2\<close> and its stops), the
  bar and the two labels.
\<close>

record legend =
  lg_id :: string
  lg_vector :: "string \<times> string \<times> string \<times> string"
  lg_stops :: "gradientStop list"
  lg_x :: nat
  lg_y :: nat
  lg_width :: nat
  lg_height :: nat
  lg_rx :: nat
  lg_fill :: string
  lg_labels :: "legendText list"

text \<open>
  \<open>drawLegend\<close>. The offset of a stop is the number before the percent sign; the labels
  are \<open>`${TEMP_MIN} \<degree>C`\<close> and \<open>`${TEMP_MAX} \<degree>C`\<close>, the degree sign being the code
  unit 176.
\<close>

definition degreesC :: "nat \<Rightarrow> string" where
  "degreesC t = toString t @ [CHR '' '', char_of (176 :: nat), CHR ''C'']"

definition drawLegend :: "colour_scale \<Rightarrow> nat list \<Rightarrow> legend" where
  "drawLegend colour ys =
     (let legendHeight = CELL_HEIGHT * MONTHS_COUNT;
          legendWidth = 18;
          x = CELL_WIDTH * length ys + 30;
          steps = 10
      in \<lparr>lg_id = ''temp-gradient'', lg_vector = (''0%'', ''0%'', ''0%'', ''100%''),
           lg_stops =
             map (\<lambda>i. let t = real i / real steps
                      in \<lparr>s_offset = t * 100,
                          s_color = colour (Some (Num (real TEMP_MIN + (real TEMP_MAX - real TEMP_MIN) * t)))\<rparr>)
               [0..<steps + 1],
           lg_x = x, lg_y = 0, lg_width = legendWidth, lg_height = legendHeight, lg_rx = 3,
           lg_fill = ''url(#temp-gradient)'',
           lg_labels =
             [\<lparr>t_class = ''legend-label'', t_x = x + legendWidth + 5, t_y = 10, t_text = degreesC TEMP_MIN\<rparr>,
              \<lparr>t_class = ''legend-label'', t_x = x + legendWidth + 5, t_y = legendHeight,
               t_text = degreesC TEMP_MAX\<rparr>]\<rparr>)"

section \<open>Interaction and entry point (main.js, parts 5 and 6)\<close>

text \<open>
  The state of the page: the global \<open>showMax\<close>, the text of \<open>#mode-label strong\<close>,
  what has been drawn, and what the click handlers of the cells keep (the array
  \<open>cells\<close>, the two band scales) together with the store of the arrays.
\<close>

record page =
  showMax :: bool
  modeLabel :: string
  groups :: "cellGroup list"
  legendOf :: legend
  cellsOf :: "cell list"
  xScaleOf :: bandScale
  yScaleOf :: bandScale
  storeOf :: store

text \<open>
  \<open>toggleMode(svg, cells, colour)\<close>: \<open>svg\<close> and the global are in the page, \<open>cells\<close>
  is not read. \<open>svg.selectAll(".cell")\<close> is every \<open>rect\<close> of class \<open>cell\<close>, each with
  the cell bound to its group.
\<close>

definition recolour :: "colour_scale \<Rightarrow> bool \<Rightarrow> cellGroup \<Rightarrow> cellGroup" where
  "recolour colour sm g =
     (if r_class (g_rect g) = ''cell''
      then g\<lparr>g_rect := (g_rect g)\<lparr>r_fill := fillOf colour sm (g_datum g), r_transition := Some 400\<rparr>\<rparr>
      else g)"

definition toggleMode :: "colour_scale \<Rightarrow> page \<Rightarrow> page" where
  "toggleMode colour p =
     (let sm = \<not> showMax p
      in p\<lparr>showMax := sm,
           modeLabel := (if sm then ''Maximum'' else ''Minimum''),
           groups := map (recolour colour sm) (groups p)\<rparr>)"

text \<open>
  \<open>main\<close>, from the rows of the file to the page drawn. \<open>showMax\<close> starts as \<open>true\<close>;
  the first text of the mode label is the page's, a parameter.
\<close>

definition main :: "(jsnum \<Rightarrow> string) \<Rightarrow> string \<Rightarrow> Row list \<Rightarrow> error + page" where
  "main interpolateYlOrRd label0 rows =
     (case loadData rows of
        Inl e \<Rightarrow> Inl e
      | Inr ld \<Rightarrow>
          (let colour = buildColourScale interpolateYlOrRd;
               scales = drawAxes (years ld)
           in case drawCells (arrays ld) (nested ld) (years ld) scales colour True of
                None \<Rightarrow> Inl TypeError
              | Some (gs, cells, h) \<Rightarrow>
                  Inr \<lparr>showMax = True, modeLabel = label0, groups = gs,
                       legendOf = drawLegend colour (years ld), cellsOf = cells,
                       xScaleOf = fst scales, yScaleOf = snd scales, storeOf = h\<rparr>))"

text \<open>The pages the program can be in: the page drawn, and any number of clicks on a cell.\<close>

fun clicks :: "colour_scale \<Rightarrow> nat \<Rightarrow> page \<Rightarrow> page" where
  "clicks colour 0 p = p"
| "clicks colour (Suc k) p = toggleMode colour (clicks colour k p)"

section \<open>Specification-side notions\<close>

text \<open>A cell group without the record of the transition started on it.\<close>

definition settled :: "cellGroup \<Rightarrow> cellGroup" where
  "settled g = g\<lparr>g_rect := (g_rect g)\<lparr>r_transition := None\<rparr>\<rparr>"

section \<open>Sample inputs\<close>

text \<open>
  Two days of January 2023, the rows \<open>2023-01-01,10,2\<close> and \<open>2023-01-02,14,4\<close>. The
  time values of the samples are those of a browser whose time zone is UTC.
\<close>

definition day1 :: DailyRecord where
  "day1 = \<lparr>date = \<lparr>timeValue = 1672531200000, getFullYear = 2023, getMonth = 0\<rparr>,
            max_t = Num 10, min_t = Num 2\<rparr>"

definition day2 :: DailyRecord where
  "day2 = \<lparr>date = \<lparr>timeValue = 1672617600000, getFullYear = 2023, getMonth = 0\<rparr>,
            max_t = Num 14, min_t = Num 4\<rparr>"

text \<open>A third day of that month whose two temperature fields are not numbers.\<close>

definition nanDay :: DailyRecord where
  "nanDay = \<lparr>date = \<lparr>timeValue = 1672704000000, getFullYear = 2023, getMonth = 0\<rparr>,
              max_t = NaN, min_t = NaN\<rparr>"

text \<open>The nested map of the first two days, as d3.group builds it.\<close>

definition nested23 :: nested_map where
  "nested23 = fst (d3_group [day2, day1] yearOf monthOf)"

text \<open>A row for the first of January of a year, and files with one such row per year.\<close>

definition newYearRow :: "nat \<Rightarrow> int \<Rightarrow> Row" where
  "newYearRow y t = \<lparr>row_date = Some \<lparr>timeValue = t, getFullYear = y, getMonth = 0\<rparr>,
                     row_max = Num 20, row_min = Num 10\<rparr>"

definition rows_2010_2023 :: "Row list" where
  "rows_2010_2023 =
    [newYearRow 2010 (1262304000000),
     newYearRow 2011 (1293840000000),
     newYearRow 2012 (1325376000000),
     newYearRow 2013 (1356998400000),
     newYearRow 2014 (1388534400000),
     newYearRow 2015 (1420070400000),
     newYearRow 2016 (1451606400000),
     newYearRow 2017 (1483228800000),
     newYearRow 2018 (1514764800000),
     newYearRow 2019 (1546300800000),
     newYearRow 2020 (1577836800000),
     newYearRow 2021 (1609459200000),
     newYearRow 2022 (1640995200000),
     newYearRow 2023 (1672531200000)]"

definition rows_990_1000 :: "Row list" where
  "rows_990_1000 =
    [newYearRow 990 (- 30925756800000),
     newYearRow 991 (- 30894220800000),
     newYearRow 992 (- 30862684800000),
     newYearRow 993 (- 30831062400000),
     newYearRow 994 (- 30799526400000),
     newYearRow 995 (- 30767990400000),
     newYearRow 996 (- 30736454400000),
     newYearRow 997 (- 30704832000000),
     newYearRow 998 (- 30673296000000),
     newYearRow 999 (- 30641760000000),
     newYearRow 1000 (- 30610224000000)]"

definition rows_999_1000 :: "Row list" where
  "rows_999_1000 = [newYearRow 999 (- 30641760000000), newYearRow 1000 (- 30610224000000)]"

text \<open>
  A file of three rows, two days of January 2023 out of order and one day of February,
  with what the program builds from it; \<open>sampleRamp\<close> stands in for the interpolator.
\<close>

definition row1 :: Row where
  "row1 = \<lparr>row_date = Some \<lparr>timeValue = 1672531200000, getFullYear = 2023, getMonth = 0\<rparr>,
           row_max = Num 10, row_min = Num 2\<rparr>"

definition row2 :: Row where
  "row2 = \<lparr>row_date = Some \<lparr>timeValue = 1672617600000, getFullYear = 2023, getMonth = 0\<rparr>,
           row_max = Num 14, row_min = Num 4\<rparr>"

definition row3 :: Row where
  "row3 = \<lparr>row_date = Some \<lparr>timeValue = 1675209600000, getFullYear = 2023, getMonth = 1\<rparr>,
           row_max = Num 16, row_min = Num 8\<rparr>"

definition day3 :: DailyRecord where
  "day3 = \<lparr>date = \<lparr>timeValue = 1675209600000, getFullYear = 2023, getMonth = 1\<rparr>,
            max_t = Num 16, min_t = Num 8\<rparr>"

definition nested2023 :: nested_map where
  "nested2023 = fst (d3_group [day2, day1, day3] yearOf monthOf)"

definition store2023 :: store where
  "store2023 = [[day2, day1], [day3], [day1, day2], [day3]]"

definition sampleRamp :: "jsnum \<Rightarrow> string" where
  "sampleRamp t = (if js_less t (Num (1 / 4)) then ''rgb(254, 224, 135)'' else ''rgb(253, 150, 65)'')"

definition cellJan :: cell where
  "cellJan = \<lparr>monthlyMax = Some (Num 14), monthlyMin = Some (Num 2), days = 2, year = 2023, month = 0\<rparr>"

definition cellFeb :: cell where
  "cellFeb = \<lparr>monthlyMax = Some (Num 16), monthlyMin = Some (Num 8), days = 3, year = 2023, month = 1\<rparr>"

definition page2023 :: page where
  "page2023 =
     \<lparr>showMax = True, modeLabel = ''Maximum'',
      groups = map (cellGroupOf store2023 (fst (drawAxes [2023])) (snd (drawAxes [2023]))
                  (buildColourScale sampleRamp) True) [cellJan, cellFeb],
      legendOf = drawLegend (buildColourScale sampleRamp) [2023],
      cellsOf = [cellJan, cellFeb],
      xScaleOf = fst (drawAxes [2023]), yScaleOf = snd (drawAxes [2023]),
      storeOf = store2023\<rparr>"

section \<open>Facts about the library functions\<close>

lemma mset_insertBy: "mset (insertBy cmp x ys) = add_mset x (mset ys)"
  by (induction ys) auto

lemma mset_array_sort: "mset (array_sort cmp xs) = mset xs"
  by (induction xs) (auto simp: mset_insertBy)

lemma insertBy_insort_key:
  assumes "\<forall>y\<in>set ys. (cmp x y \<le> 0) = (k x \<le> k y)"
  shows "insertBy cmp x ys = insort_key k x ys"
  using assms by (induction ys) auto

lemma array_sort_sort_key:
  assumes "\<forall>x\<in>set xs. \<forall>y\<in>set xs. (cmp x y \<le> 0) = (k x \<le> k y)"
  shows "array_sort cmp xs = sort_key k xs"
  using assms
proof (induction xs)
  case Nil
  show ?case by simp
next
  case (Cons x xs)
  have ih: "array_sort cmp xs = sort_key k xs"
    using Cons by simp
  have "\<forall>y\<in>set (sort_key k xs). (cmp x y \<le> 0) = (k x \<le> k y)"
    using Cons.prems by simp
  then show ?case
    by (simp add: ih insertBy_insort_key)
qed

lemma array_sort_byDate: "array_sort byDate xs = sort_key (\<lambda>d. timeValue (date d)) xs"
  by (rule array_sort_sort_key) (simp add: byDate_def)

subsection \<open>The order of the numbers\<close>

lemma js_ge_refl: "a \<noteq> NaN \<Longrightarrow> js_ge a a"
  by (cases a) simp_all

lemma js_ge_trans: "js_ge a b \<Longrightarrow> js_ge b c \<Longrightarrow> js_ge a c"
  by (cases a; cases b; cases c) simp_all

lemma js_less_numbers: "js_less a b \<Longrightarrow> a \<noteq> NaN \<and> b \<noteq> NaN"
  by (cases a; cases b) simp_all

lemma js_less_ge: "js_less a b \<Longrightarrow> js_ge b a"
  by (cases a; cases b) simp_all

lemma js_not_less: "a \<noteq> NaN \<Longrightarrow> b \<noteq> NaN \<Longrightarrow> \<not> js_less a b \<Longrightarrow> js_ge a b"
  by (cases a; cases b) simp_all

subsection \<open>d3.max and d3.min\<close>

lemma max_step_None: "max_step None v = (if v = NaN then None else Some v)"
  by (cases v) (simp_all add: max_step_def)

lemma min_step_None: "min_step None v = (if v = NaN then None else Some v)"
  by (cases v) (simp_all add: min_step_def)

lemma max_fold_Some:
  assumes "m \<noteq> NaN"
  shows "\<exists>m'. foldl (\<lambda>a x. max_step a (f x)) (Some m) xs = Some m' \<and> m' \<noteq> NaN
     \<and> (m' = m \<or> m' \<in> f ` set xs) \<and> js_ge m' m
     \<and> (\<forall>x\<in>set xs. f x \<noteq> NaN \<longrightarrow> js_ge m' (f x))"
  using assms
proof (induction xs arbitrary: m)
  case Nil
  then show ?case by (simp add: js_ge_refl)
next
  case (Cons x xs)
  define m1 where "m1 = (if js_less m (f x) then f x else m)"
  have step: "max_step (Some m) (f x) = Some m1"
    by (simp add: max_step_def m1_def)
  have m1: "m1 \<noteq> NaN"
    using Cons.prems js_less_numbers [of m "f x"] by (auto simp: m1_def)
  have ge_m: "js_ge m1 m"
    using Cons.prems by (auto simp: m1_def js_less_ge js_ge_refl)
  have ge_x: "f x \<noteq> NaN \<Longrightarrow> js_ge m1 (f x)"
    using Cons.prems by (auto simp: m1_def js_ge_refl js_not_less)
  have pick: "m1 = m \<or> m1 = f x"
    by (simp add: m1_def)
  from Cons.IH [OF m1] obtain m' where
    run: "foldl (\<lambda>a x. max_step a (f x)) (Some m1) xs = Some m'"
    and nn: "m' \<noteq> NaN" and mem: "m' = m1 \<or> m' \<in> f ` set xs" and ge: "js_ge m' m1"
    and all: "\<forall>x\<in>set xs. f x \<noteq> NaN \<longrightarrow> js_ge m' (f x)"
    by blast
  have 1: "foldl (\<lambda>a x. max_step a (f x)) (Some m) (x # xs) = Some m'"
    using run by (simp add: step)
  have 2: "m' = m \<or> m' \<in> f ` set (x # xs)"
    using mem pick by auto
  have 3: "js_ge m' m"
    using ge ge_m by (rule js_ge_trans)
  have 4: "\<forall>y\<in>set (x # xs). f y \<noteq> NaN \<longrightarrow> js_ge m' (f y)"
    using all ge ge_x js_ge_trans by auto
  show ?case
    using 1 nn 2 3 4 by blast
qed

lemma min_fold_Some:
  assumes "m \<noteq> NaN"
  shows "\<exists>m'. foldl (\<lambda>a x. min_step a (f x)) (Some m) xs = Some m' \<and> m' \<noteq> NaN
     \<and> (m' = m \<or> m' \<in> f ` set xs) \<and> js_ge m m'
     \<and> (\<forall>x\<in>set xs. f x \<noteq> NaN \<longrightarrow> js_ge (f x) m')"
  using assms
proof (induction xs arbitrary: m)
  case Nil
  then show ?case by (simp add: js_ge_refl)
next
  case (Cons x xs)
  define m1 where "m1 = (if js_less (f x) m then f x else m)"
  have step: "min_step (Some m) (f x) = Some m1"
    by (simp add: min_step_def m1_def)
  have m1: "m1 \<noteq> NaN"
    using Cons.prems js_less_numbers [of "f x" m] by (auto simp: m1_def)
  have ge_m: "js_ge m m1"
    using Cons.prems by (auto simp: m1_def js_less_ge js_ge_refl)
  have ge_x: "f x \<noteq> NaN \<Longrightarrow> js_ge (f x) m1"
    using Cons.prems by (auto simp: m1_def js_ge_refl js_not_less)
  have pick: "m1 = m \<or> m1 = f x"
    by (simp add: m1_def)
  from Cons.IH [OF m1] obtain m' where
    run: "foldl (\<lambda>a x. min_step a (f x)) (Some m1) xs = Some m'"
    and nn: "m' \<noteq> NaN" and mem: "m' = m1 \<or> m' \<in> f ` set xs" and ge: "js_ge m1 m'"
    and all: "\<forall>x\<in>set xs. f x \<noteq> NaN \<longrightarrow> js_ge (f x) m'"
    by blast
  have 1: "foldl (\<lambda>a x. min_step a (f x)) (Some m) (x # xs) = Some m'"
    using run by (simp add: step)
  have 2: "m' = m \<or> m' \<in> f ` set (x # xs)"
    using mem pick by auto
  have 3: "js_ge m m'"
    using ge_m ge by (rule js_ge_trans)
  have 4: "\<forall>y\<in>set (x # xs). f y \<noteq> NaN \<longrightarrow> js_ge (f y) m'"
    using all ge ge_x js_ge_trans by auto
  show ?case
    using 1 nn 2 3 4 by blast
qed

text \<open>
  What d3.max returns is the greatest of the values that are not NaN, and \<open>undefined\<close>
  when there is none; d3.min the least.
\<close>

lemma d3_max_greatest:
  "if \<forall>x\<in>set xs. f x = NaN then d3_max xs f = None
   else \<exists>m. d3_max xs f = Some m \<and> m \<noteq> NaN \<and> m \<in> f ` set xs
          \<and> (\<forall>x\<in>set xs. f x \<noteq> NaN \<longrightarrow> js_ge m (f x))"
  unfolding d3_max_def
proof (induction xs)
  case Nil
  show ?case by simp
next
  case (Cons x xs)
  show ?case
  proof (cases "f x = NaN")
    case True
    then show ?thesis using Cons by (auto simp: max_step_None split: if_splits)
  next
    case False
    from max_fold_Some [OF False, of f xs] obtain m' where
      "foldl (\<lambda>a x. max_step a (f x)) (Some (f x)) xs = Some m'" "m' \<noteq> NaN"
      "m' = f x \<or> m' \<in> f ` set xs" "js_ge m' (f x)"
      "\<forall>y\<in>set xs. f y \<noteq> NaN \<longrightarrow> js_ge m' (f y)"
      by blast
    then show ?thesis using False by (auto simp: max_step_None)
  qed
qed

lemma d3_min_least:
  "if \<forall>x\<in>set xs. f x = NaN then d3_min xs f = None
   else \<exists>m. d3_min xs f = Some m \<and> m \<noteq> NaN \<and> m \<in> f ` set xs
          \<and> (\<forall>x\<in>set xs. f x \<noteq> NaN \<longrightarrow> js_ge (f x) m)"
  unfolding d3_min_def
proof (induction xs)
  case Nil
  show ?case by simp
next
  case (Cons x xs)
  show ?case
  proof (cases "f x = NaN")
    case True
    then show ?thesis using Cons by (auto simp: min_step_None split: if_splits)
  next
    case False
    from min_fold_Some [OF False, of f xs] obtain m' where
      "foldl (\<lambda>a x. min_step a (f x)) (Some (f x)) xs = Some m'" "m' \<noteq> NaN"
      "m' = f x \<or> m' \<in> f ` set xs" "js_ge (f x) m'"
      "\<forall>y\<in>set xs. f y \<noteq> NaN \<longrightarrow> js_ge (f y) m'"
      by blast
    then show ?thesis using False by (auto simp: min_step_None)
  qed
qed

lemma summariseMonth_Some:
  "a < length h \<Longrightarrow> summariseMonth h a =
     Some (\<lparr>monthlyMax = d3_max (h ! a) max_t, monthlyMin = d3_min (h ! a) min_t, days = a\<rparr>,
           h[a := sort_key (\<lambda>d. timeValue (date d)) (h ! a)])"
  by (simp add: summariseMonth_def array_sort_byDate)

section \<open>Aggregation (claim C1)\<close>

text \<open>
  Claim C1, as stated, fails: the daily values are what the unary plus gives, and for a
  month whose only record has NaN as its two temperatures \<open>summariseMonth\<close> returns
  \<open>undefined\<close> for \<open>monthlyMax\<close> and for \<open>monthlyMin\<close>, not a maximum or a minimum of
  the values.
\<close>

theorem summariseMonth_NaN_counterexample:
  "summariseMonth [[nanDay]] 0
     = Some (\<lparr>monthlyMax = None, monthlyMin = None, days = 0\<rparr>, [[nanDay]])"
  by (simp add: summariseMonth_def d3_max_def d3_min_def max_step_def min_step_def nanDay_def)

text \<open>
  Claim C1, amended. For every non-empty array of daily records passed to
  \<open>summariseMonth\<close>, the call returns; \<open>monthlyMax\<close> is the greatest of the records'
  daily max values that are not NaN (it is one of them and at least each of them, the
  infinities included), and \<open>undefined\<close> when every daily max is NaN; \<open>monthlyMin\<close> is
  the least of the daily min values that are not NaN, and \<open>undefined\<close> when every daily
  min is NaN; and the returned \<open>days\<close> is the input sorted ascending by date: it is
  ordered by time value and is a permutation of the input, whatever the order of the
  input was.
\<close>

theorem summariseMonth_aggregates:
  assumes "a < length h" and "h ! a \<noteq> []"
  shows "\<exists>s h'. summariseMonth h a = Some (s, h')
     \<and> (if \<forall>d\<in>set (h ! a). max_t d = NaN then monthlyMax s = None
        else \<exists>m. monthlyMax s = Some m \<and> m \<noteq> NaN \<and> m \<in> max_t ` set (h ! a)
               \<and> (\<forall>d\<in>set (h ! a). max_t d \<noteq> NaN \<longrightarrow> js_ge m (max_t d)))
     \<and> (if \<forall>d\<in>set (h ! a). min_t d = NaN then monthlyMin s = None
        else \<exists>m. monthlyMin s = Some m \<and> m \<noteq> NaN \<and> m \<in> min_t ` set (h ! a)
               \<and> (\<forall>d\<in>set (h ! a). min_t d \<noteq> NaN \<longrightarrow> js_ge (min_t d) m))
     \<and> days s < length h' \<and> h' ! days s \<noteq> []
     \<and> sorted (map (\<lambda>d. timeValue (date d)) (h' ! days s))
     \<and> mset (h' ! days s) = mset (h ! a)"
proof -
  let ?s = "\<lparr>monthlyMax = d3_max (h ! a) max_t, monthlyMin = d3_min (h ! a) min_t, days = a\<rparr>"
  let ?h = "h[a := sort_key (\<lambda>d. timeValue (date d)) (h ! a)]"
  have run: "summariseMonth h a = Some (?s, ?h)"
    using assms(1) by (rule summariseMonth_Some)
  have mx: "if \<forall>d\<in>set (h ! a). max_t d = NaN then monthlyMax ?s = None
        else \<exists>m. monthlyMax ?s = Some m \<and> m \<noteq> NaN \<and> m \<in> max_t ` set (h ! a)
               \<and> (\<forall>d\<in>set (h ! a). max_t d \<noteq> NaN \<longrightarrow> js_ge m (max_t d))"
    using d3_max_greatest [of "h ! a" max_t] by simp
  have mn: "if \<forall>d\<in>set (h ! a). min_t d = NaN then monthlyMin ?s = None
        else \<exists>m. monthlyMin ?s = Some m \<and> m \<noteq> NaN \<and> m \<in> min_t ` set (h ! a)
               \<and> (\<forall>d\<in>set (h ! a). min_t d \<noteq> NaN \<longrightarrow> js_ge (min_t d) m)"
    using d3_min_least [of "h ! a" min_t] by simp
  have arr: "?h ! days ?s = sort_key (\<lambda>d. timeValue (date d)) (h ! a)"
    using assms(1) by simp
  have srt: "sorted (map (\<lambda>d. timeValue (date d)) (?h ! days ?s))"
    unfolding arr by (rule sorted_sort_key)
  have per: "mset (?h ! days ?s) = mset (h ! a)"
    unfolding arr by simp
  have ne: "?h ! days ?s \<noteq> []"
    using per assms(2) by (metis mset_zero_iff)
  have len: "days ?s < length ?h"
    using assms(1) by simp
  show ?thesis
    apply (rule exI [where x = "?s"])
    apply (rule exI [where x = "?h"])
    by (intro conjI run mx mn len ne srt per)
qed

theorem summariseMonth_aggregates_witness:
  "(0::nat) < length [[day2, nanDay, day1]] \<and> [[day2, nanDay, day1]] ! 0 \<noteq> []
   \<and> (\<exists>s h'. summariseMonth [[day2, nanDay, day1]] 0 = Some (s, h')
        \<and> monthlyMax s = Some (Num 14) \<and> monthlyMin s = Some (Num 2)
        \<and> h' ! days s = [day1, day2, nanDay])"
proof -
  have 1: "(0::nat) < length [[day2, nanDay, day1]]" by simp
  have 2: "[[day2, nanDay, day1]] ! 0 \<noteq> []" by simp
  have 3: "summariseMonth [[day2, nanDay, day1]] 0
      = Some (\<lparr>monthlyMax = Some (Num 14), monthlyMin = Some (Num 2), days = 0\<rparr>,
              [[day1, day2, nanDay]])"
    by (simp add: summariseMonth_def d3_max_def d3_min_def max_step_def min_step_def byDate_def
        day1_def day2_def nanDay_def)
  from summariseMonth_aggregates [OF 1 2]
  obtain s h' where run: "summariseMonth [[day2, nanDay, day1]] 0 = Some (s, h')"
    by blast
  with 3 have "monthlyMax s = Some (Num 14)" "monthlyMin s = Some (Num 2)"
    "h' ! days s = [day1, day2, nanDay]"
    by auto
  with run 1 2 show ?thesis by blast
qed

section \<open>The loop of drawCells\<close>

lemma summariseMonth_fresh:
  "summariseMonth (h @ [xs]) (length h) =
     Some (\<lparr>monthlyMax = d3_max xs max_t, monthlyMin = d3_min xs min_t, days = length h\<rparr>,
           h @ [sort_key (\<lambda>d. timeValue (date d)) xs])"
  by (simp add: summariseMonth_Some)

text \<open>One round of the loop of drawCells for a month with data.\<close>

lemma cellsLoop_step:
  assumes "get2 n y m = Some a" and "a < length h"
  shows "cellsLoop n ((y, m) # ks) cells h =
     cellsLoop n ks
       (cells @ [\<lparr>monthlyMax = d3_max (h ! a) max_t, monthlyMin = d3_min (h ! a) min_t,
                  days = length h, year = y, month = m\<rparr>])
       (h @ [sort_key (\<lambda>d. timeValue (date d)) (h ! a)])"
  using assms by (simp add: spread_def summariseMonth_fresh)

lemma cellsLoop_skip:
  "get2 n y m = None \<Longrightarrow> cellsLoop n ((y, m) # ks) cells h = cellsLoop n ks cells h"
  by simp

lemma cellsLoop_fail:
  "get2 n y m = Some a \<Longrightarrow> \<not> a < length h \<Longrightarrow> cellsLoop n ((y, m) # ks) cells h = None"
  by (simp add: spread_def)

text \<open>The loop only appends to the store and to the cells.\<close>

lemma cellsLoop_extends:
  "cellsLoop n ks cells h = Some (cells', h') \<Longrightarrow> \<exists>new ext. cells' = cells @ new \<and> h' = h @ ext"
proof (induction ks arbitrary: cells h)
  case Nil
  then show ?case by simp
next
  case (Cons k ks)
  obtain y m where k: "k = (y, m)" by (cases k)
  show ?case
  proof (cases "get2 n y m")
    case None
    then show ?thesis using Cons k by (simp only: cellsLoop_skip)
  next
    case (Some a)
    show ?thesis
    proof (cases "a < length h")
      case False
      then have "cellsLoop n ((y, m) # ks) cells h = None"
        using Some by (intro cellsLoop_fail)
      then show ?thesis using Cons.prems k by simp
    next
      case True
      from Cons.prems have "cellsLoop n ks
         (cells @ [\<lparr>monthlyMax = d3_max (h ! a) max_t, monthlyMin = d3_min (h ! a) min_t,
                  days = length h, year = y, month = m\<rparr>])
         (h @ [sort_key (\<lambda>d. timeValue (date d)) (h ! a)]) = Some (cells', h')"
        unfolding k by (simp only: cellsLoop_step [OF Some True])
      from Cons.IH [OF this] show ?thesis by auto
    qed
  qed
qed

text \<open>What the loop builds, when every address in the nested map is an array of the store.\<close>

lemma cellsLoop_cells:
  assumes "cellsLoop n ks cells h = Some (cells', h')"
    and "\<forall>y m a. get2 n y m = Some a \<longrightarrow> a < n0" and "n0 \<le> length h"
  shows "\<exists>new. cells' = cells @ new
     \<and> map (\<lambda>c. (year c, month c)) new = filter (\<lambda>(y, m). get2 n y m \<noteq> None) ks
     \<and> (\<forall>c\<in>set new. length h \<le> days c \<and> days c < length h'
           \<and> (\<exists>a. get2 n (year c) (month c) = Some a
                \<and> h' ! days c = sort_key (\<lambda>d. timeValue (date d)) (h ! a)
                \<and> monthlyMax c = d3_max (h ! a) max_t
                \<and> monthlyMin c = d3_min (h ! a) min_t))"
  using assms
proof (induction ks arbitrary: cells h)
  case Nil
  then show ?case by simp
next
  case (Cons k ks)
  obtain y m where k: "k = (y, m)" by (cases k)
  show ?case
  proof (cases "get2 n y m")
    case None
    from Cons.prems(1) have "cellsLoop n ks cells h = Some (cells', h')"
      unfolding k by (simp only: cellsLoop_skip [OF None])
    from Cons.IH [OF this Cons.prems(2,3)] show ?thesis
      using None k by auto
  next
    case (Some a)
    have a: "a < length h" using Some Cons.prems(2,3) by (meson less_le_trans)
    let ?c = "\<lparr>monthlyMax = d3_max (h ! a) max_t, monthlyMin = d3_min (h ! a) min_t,
                  days = length h, year = y, month = m\<rparr>"
    let ?h = "h @ [sort_key (\<lambda>d. timeValue (date d)) (h ! a)]"
    from Cons.prems(1) have run: "cellsLoop n ks (cells @ [?c]) ?h = Some (cells', h')"
      unfolding k by (simp only: cellsLoop_step [OF Some a])
    have n0: "n0 \<le> length ?h" using Cons.prems(3) by simp
    from Cons.IH [OF run Cons.prems(2) n0]
    obtain new where new: "cells' = (cells @ [?c]) @ new"
      and keys: "map (\<lambda>c. (year c, month c)) new = filter (\<lambda>(y, m). get2 n y m \<noteq> None) ks"
      and each: "\<forall>c\<in>set new. length ?h \<le> days c \<and> days c < length h'
           \<and> (\<exists>a. get2 n (year c) (month c) = Some a
                \<and> h' ! days c = sort_key (\<lambda>d. timeValue (date d)) (?h ! a)
                \<and> monthlyMax c = d3_max (?h ! a) max_t
                \<and> monthlyMin c = d3_min (?h ! a) min_t)"
      by blast
    from cellsLoop_extends [OF run] obtain ext where ext: "h' = ?h @ ext" by blast
    have old: "?h ! b = h ! b" if "get2 n y' m' = Some b" for y' m' b
    proof -
      have "b < length h" using that Cons.prems(2,3) by (meson less_le_trans)
      then show ?thesis by (simp add: nth_append)
    qed
    have first: "length h \<le> days ?c \<and> days ?c < length h'
           \<and> (\<exists>a. get2 n (year ?c) (month ?c) = Some a
                \<and> h' ! days ?c = sort_key (\<lambda>d. timeValue (date d)) (h ! a)
                \<and> monthlyMax ?c = d3_max (h ! a) max_t
                \<and> monthlyMin ?c = d3_min (h ! a) min_t)"
      using Some by (simp add: ext nth_append)
    have rest: "\<forall>c\<in>set new. length h \<le> days c \<and> days c < length h'
           \<and> (\<exists>a. get2 n (year c) (month c) = Some a
                \<and> h' ! days c = sort_key (\<lambda>d. timeValue (date d)) (h ! a)
                \<and> monthlyMax c = d3_max (h ! a) max_t
                \<and> monthlyMin c = d3_min (h ! a) min_t)"
    proof
      fix c assume "c \<in> set new"
      with each obtain b where b: "length ?h \<le> days c" "days c < length h'"
        "get2 n (year c) (month c) = Some b"
        "h' ! days c = sort_key (\<lambda>d. timeValue (date d)) (?h ! b)"
        "monthlyMax c = d3_max (?h ! b) max_t" "monthlyMin c = d3_min (?h ! b) min_t"
        by blast
      have "?h ! b = h ! b" using b(3) by (rule old)
      with b show "length h \<le> days c \<and> days c < length h'
           \<and> (\<exists>a. get2 n (year c) (month c) = Some a
                \<and> h' ! days c = sort_key (\<lambda>d. timeValue (date d)) (h ! a)
                \<and> monthlyMax c = d3_max (h ! a) max_t
                \<and> monthlyMin c = d3_min (h ! a) min_t)"
        by simp
    qed
    show ?thesis
      apply (rule exI [where x = "?c # new"])
      using new keys first rest Some k by simp
  qed
qed

section \<open>In-place sort and defensive copy (claim C3)\<close>

lemma upt12: "[0..<12] = [0,1,2,3,4,5,6,7,8,9,10,11]"
  by code_simp

lemma drawCells_extends:
  assumes "drawCells h n ys scales colour sm = Some (gs, cells, h')"
  shows "\<exists>ext. h' = h @ ext"
proof -
  from assms have "cellsLoop n (List.product ys [0..<MONTHS_COUNT]) [] h = Some (cells, h')"
    by (auto simp: drawCells_def buildCells_def split: option.splits)
  from cellsLoop_extends [OF this] show ?thesis by blast
qed

text \<open>
  Claim C3, as stated, fails: \<open>summariseMonth\<close> sorts the array it is given. Called on
  the array \<open>[day2, day1]\<close> it leaves \<open>[day1, day2]\<close> at the same address.
\<close>

theorem summariseMonth_mutates_argument_counterexample:
  "summariseMonth [[day2, day1]] 0
     = Some (\<lparr>monthlyMax = Some (Num 14), monthlyMin = Some (Num 2), days = 0\<rparr>, [[day1, day2]])
   \<and> [[day1, day2]] ! 0 \<noteq> [[day2, day1]] ! 0"
  by (simp add: summariseMonth_def d3_max_def d3_min_def max_step_def min_step_def byDate_def
      day1_def day2_def)

text \<open>
  Claim C3, amended. \<open>summariseMonth\<close> sorts the array it is passed in place: the
  returned \<open>days\<close> is that same array, which after the call is ordered by date, with the
  same elements, records of equal date in their former order (the sort is stable); every
  other array is unchanged. The defensive copy is made by the caller: \<open>drawCells\<close>
  passes a fresh copy of each month's group, so every array that existed before
  \<open>drawCells\<close>, the groups of the nested map among them, has the same elements in the
  same order afterwards.
\<close>

theorem summariseMonth_sorts_in_place:
  "(summariseMonth h a = Some (s, h') \<longrightarrow>
      days s = a \<and> a < length h \<and> length h' = length h
      \<and> (\<forall>b<length h. b \<noteq> a \<longrightarrow> h' ! b = h ! b)
      \<and> sorted (map (\<lambda>d. timeValue (date d)) (h' ! a))
      \<and> mset (h' ! a) = mset (h ! a)
      \<and> (\<forall>k. filter (\<lambda>d. timeValue (date d) = k) (h' ! a) = filter (\<lambda>d. timeValue (date d) = k) (h ! a)))
   \<and> (drawCells h n ys scales colour sm = Some (gs, cells, h'') \<longrightarrow>
      length h \<le> length h'' \<and> (\<forall>b<length h. h'' ! b = h ! b))"
proof (intro conjI impI)
  assume run: "summariseMonth h a = Some (s, h')"
  then have a: "a < length h"
    by (auto simp: summariseMonth_def split: if_splits)
  from run have s: "days s = a" and h': "h' = h[a := sort_key (\<lambda>d. timeValue (date d)) (h ! a)]"
    by (auto simp: summariseMonth_Some [OF a])
  have arr: "h' ! a = sort_key (\<lambda>d. timeValue (date d)) (h ! a)"
    using a by (simp add: h')
  show "days s = a" by (rule s)
  show "a < length h" by (rule a)
  show "length h' = length h" by (simp add: h')
  show "\<forall>b<length h. b \<noteq> a \<longrightarrow> h' ! b = h ! b" by (simp add: h')
  show "sorted (map (\<lambda>d. timeValue (date d)) (h' ! a))"
    unfolding arr by (rule sorted_sort_key)
  show "mset (h' ! a) = mset (h ! a)"
    unfolding arr by simp
  show "\<forall>k. filter (\<lambda>d. timeValue (date d) = k) (h' ! a) = filter (\<lambda>d. timeValue (date d) = k) (h ! a)"
    unfolding arr by (simp add: sort_key_stable)
next
  assume "drawCells h n ys scales colour sm = Some (gs, cells, h'')"
  from drawCells_extends [OF this] obtain ext where "h'' = h @ ext" by blast
  then show "length h \<le> length h''" and "\<forall>b<length h. h'' ! b = h ! b"
    by (simp_all add: nth_append)
qed

theorem summariseMonth_sorts_in_place_witness:
  "summariseMonth [[day2, day1]] 0
     = Some (\<lparr>monthlyMax = Some (Num 14), monthlyMin = Some (Num 2), days = 0\<rparr>, [[day1, day2]])
   \<and> sorted (map (\<lambda>d. timeValue (date d)) ([[day1, day2]] ! 0))
   \<and> drawCells [[day2, day1]] nested23 [2023] (drawAxes [2023]) (\<lambda>x. None) True
     = Some (map (cellGroupOf [[day2, day1], [day1, day2]] (fst (drawAxes [2023])) (snd (drawAxes [2023]))
                    (\<lambda>x. None) True)
               [\<lparr>monthlyMax = Some (Num 14), monthlyMin = Some (Num 2), days = 1, year = 2023, month = 0\<rparr>],
             [\<lparr>monthlyMax = Some (Num 14), monthlyMin = Some (Num 2), days = 1, year = 2023, month = 0\<rparr>],
             [[day2, day1], [day1, day2]])
   \<and> [[day2, day1], [day1, day2]] ! 0 = [day2, day1]"
proof -
  have 1: "summariseMonth [[day2, day1]] 0
     = Some (\<lparr>monthlyMax = Some (Num 14), monthlyMin = Some (Num 2), days = 0\<rparr>, [[day1, day2]])"
    by (simp add: summariseMonth_def d3_max_def d3_min_def max_step_def min_step_def byDate_def
        day1_def day2_def)
  have 2: "buildCells nested23 [2023] [[day2, day1]] =
     Some ([\<lparr>monthlyMax = Some (Num 14), monthlyMin = Some (Num 2), days = 1, year = 2023, month = 0\<rparr>],
           [[day2, day1], [day1, day2]])"
    by (simp add: buildCells_def MONTHS_COUNT_def upt12 nested23_def d3_group_def get2_def yearOf_def
        monthOf_def day1_def day2_def spread_def summariseMonth_def d3_max_def d3_min_def max_step_def
        min_step_def byDate_def)
  have 3: "drawCells [[day2, day1]] nested23 [2023] (drawAxes [2023]) (\<lambda>x. None) True
     = Some (map (cellGroupOf [[day2, day1], [day1, day2]] (fst (drawAxes [2023])) (snd (drawAxes [2023]))
                    (\<lambda>x. None) True)
               [\<lparr>monthlyMax = Some (Num 14), monthlyMin = Some (Num 2), days = 1, year = 2023, month = 0\<rparr>],
             [\<lparr>monthlyMax = Some (Num 14), monthlyMin = Some (Num 2), days = 1, year = 2023, month = 0\<rparr>],
             [[day2, day1], [day1, day2]])"
    by (simp only: drawCells_def 2 option.case prod.case)
  from summariseMonth_sorts_in_place [of "[[day2, day1]]" 0 _ "[[day1, day2]]" nested23 "[2023]"
      "drawAxes [2023]" "\<lambda>x. None" True _ _ "[[day2, day1], [day1, day2]]"] 1 3
  show ?thesis by simp
qed

section \<open>Facts about loadData\<close>

lemma set_dedup: "set (dedup xs) = set xs"
  by (induction xs) auto

lemma distinct_dedup: "distinct (dedup xs)"
  by (induction xs) (auto simp: distinct_removeAll)

lemma length_dedup: "length (dedup xs) = card (set xs)"
  by (metis distinct_card distinct_dedup set_dedup)

lemma slice_last_drop: "slice_last n xs = drop (length xs - n) xs"
  by (simp add: slice_last_def)

lemma length_slice_last: "length (slice_last n xs) = min n (length xs)"
  by (simp add: slice_last_def)

lemma set_slice_last: "set (slice_last n xs) \<subseteq> set xs"
  by (simp add: slice_last_drop set_drop_subset)

text \<open>The last elements of an ascending list without repetitions are its greatest ones.\<close>

lemma slice_last_sorted:
  assumes "sorted xs" and "distinct xs"
  shows "sorted_wrt (<) (slice_last n xs)"
    and "\<forall>y\<in>set (slice_last n xs). \<forall>z\<in>set xs - set (slice_last n xs). z < y"
proof -
  let ?k = "length xs - n"
  have split: "xs = take ?k xs @ drop ?k xs" by simp
  have "sorted (drop ?k xs)" "distinct (drop ?k xs)"
    using assms by (simp_all add: sorted_wrt_drop)
  then show "sorted_wrt (<) (slice_last n xs)"
    unfolding slice_last_drop by (simp add: strict_sorted_iff)
  have le: "\<forall>z\<in>set (take ?k xs). \<forall>y\<in>set (drop ?k xs). z \<le> y"
    using assms(1) split by (metis sorted_append)
  have ne: "set (take ?k xs) \<inter> set (drop ?k xs) = {}"
    using assms(2) split by (metis distinct_append)
  have rest: "set xs - set (drop ?k xs) \<subseteq> set (take ?k xs)"
    using split by (metis Diff_subset_conv Un_commute set_append subset_refl)
  show "\<forall>y\<in>set (slice_last n xs). \<forall>z\<in>set xs - set (slice_last n xs). z < y"
    unfolding slice_last_drop
  proof (intro ballI)
    fix y z assume y: "y \<in> set (drop ?k xs)" and z: "z \<in> set xs - set (drop ?k xs)"
    from z rest have zt: "z \<in> set (take ?k xs)" by blast
    with le y have "z \<le> y" by blast
    moreover have "z \<noteq> y" using z y by blast
    ultimately show "z < y" by simp
  qed
qed

subsection \<open>Numbers as strings\<close>

lemma of_char_digitChar: "d < 10 \<Longrightarrow> (of_char (digitChar d) :: nat) = 48 + d"
  by (simp add: digitChar_def)

lemma digitChar_inj: "d < 10 \<Longrightarrow> e < 10 \<Longrightarrow> (digitChar d = digitChar e) = (d = e)"
  by (metis of_char_digitChar add_left_cancel)

lemma toString_small: "n < 10 \<Longrightarrow> toString n = [digitChar n]"
  by (simp add: toString.simps)

lemma toString_large: "\<not> n < 10 \<Longrightarrow> toString n = toString (n div 10) @ [digitChar (n mod 10)]"
  by (subst toString.simps) simp

lemma length_toString_pos: "0 < length (toString n)"
  by (cases "n < 10") (simp_all add: toString_small toString_large)

lemma length_toString_one: "(length (toString n) = 1) = (n < 10)"
  using length_toString_pos [of "n div 10"]
  by (cases "n < 10") (simp_all add: toString_small toString_large)

lemma str_less_irrefl: "\<not> str_less xs xs"
  by (induction xs) auto

lemma str_less_snoc:
  "length xs = length ys \<Longrightarrow>
   str_less (xs @ [c]) (ys @ [d]) = (str_less xs ys \<or> (xs = ys \<and> (of_char c :: nat) < of_char d))"
  by (induction xs ys rule: list_induct2) auto

lemma div_mod_less:
  "((a::nat) < b) = (a div 10 < b div 10 \<or> (a div 10 = b div 10 \<and> a mod 10 < b mod 10))"
proof -
  define qa ra qb rb where "qa = a div 10" and "ra = a mod 10" and "qb = b div 10" and "rb = b mod 10"
  have a: "10 * qa + ra = a" and b: "10 * qb + rb = b" and r: "ra < 10" "rb < 10"
    by (simp_all add: qa_def ra_def qb_def rb_def)
  have "(10 * qa + ra < 10 * qb + rb) = (qa < qb \<or> (qa = qb \<and> ra < rb))"
    using r by arith
  then have "(a < b) = (qa < qb \<or> (qa = qb \<and> ra < rb))"
    by (simp only: a b)
  then show ?thesis
    by (simp only: qa_def ra_def qb_def rb_def)
qed

lemma div_mod_eq: "((a::nat) = b) = (a div 10 = b div 10 \<and> a mod 10 = b mod 10)"
  by (metis div_mult_mod_eq)

lemma toString_inj: "toString a = toString b \<Longrightarrow> a = b"
proof (induction a arbitrary: b rule: toString.induct)
  case (1 a)
  show ?case
  proof (cases "a < 10")
    case True
    then have "length (toString b) = 1" using "1.prems" [symmetric] by (simp add: toString_small)
    then have b: "b < 10" by (simp only: length_toString_one)
    show ?thesis using True b "1.prems"
      by (simp add: toString_small digitChar_inj)
  next
    case False
    have "length (toString a) \<noteq> 1" using False by (simp only: length_toString_one) simp
    then have "length (toString b) \<noteq> 1" using "1.prems" by simp
    then have b: "\<not> b < 10" by (simp only: length_toString_one) simp
    have eq: "toString (a div 10) @ [digitChar (a mod 10)] = toString (b div 10) @ [digitChar (b mod 10)]"
      using "1.prems" toString_large [OF False] toString_large [OF b] by simp
    then have "toString (a div 10) = toString (b div 10)" and d: "digitChar (a mod 10) = digitChar (b mod 10)"
      by simp_all
    then have "a div 10 = b div 10" using "1.IH" [OF False] by blast
    moreover have "a mod 10 = b mod 10" using d by (simp add: digitChar_inj)
    ultimately show ?thesis by (simp only: div_mod_eq [of a b])
  qed
qed

text \<open>On numbers with the same number of digits the order of the strings is the order of the numbers.\<close>

lemma toString_less:
  "length (toString a) = length (toString b) \<Longrightarrow> str_less (toString a) (toString b) = (a < b)"
proof (induction a arbitrary: b rule: toString.induct)
  case (1 a)
  show ?case
  proof (cases "a < 10")
    case True
    then have "length (toString b) = 1" using "1.prems" [symmetric] by (simp add: toString_small)
    then have b: "b < 10" by (simp only: length_toString_one)
    show ?thesis using True b
      by (simp add: toString_small of_char_digitChar)
  next
    case False
    have "length (toString a) \<noteq> 1" using False by (simp only: length_toString_one) simp
    then have "length (toString b) \<noteq> 1" using "1.prems" by simp
    then have b: "\<not> b < 10" by (simp only: length_toString_one) simp
    have len: "length (toString (a div 10)) = length (toString (b div 10))"
      using "1.prems" False b by (simp add: toString_large)
    have ih: "str_less (toString (a div 10)) (toString (b div 10)) = (a div 10 < b div 10)"
      using "1.IH" [OF False len] .
    have eq: "(toString (a div 10) = toString (b div 10)) = (a div 10 = b div 10)"
      using toString_inj [of "a div 10" "b div 10"] by auto
    have "str_less (toString a) (toString b)
        = (str_less (toString (a div 10)) (toString (b div 10))
           \<or> (toString (a div 10) = toString (b div 10)
               \<and> (of_char (digitChar (a mod 10)) :: nat) < of_char (digitChar (b mod 10))))"
      using toString_large [OF False] toString_large [OF b] str_less_snoc [OF len] by simp
    also have "\<dots> = (a div 10 < b div 10 \<or> (a div 10 = b div 10 \<and> a mod 10 < b mod 10))"
      by (simp add: ih eq of_char_digitChar)
    also have "\<dots> = (a < b)"
      by (rule div_mod_less [symmetric])
    finally show ?thesis .
  qed
qed

lemma defaultCompare_le:
  assumes "length (toString a) = length (toString b)"
  shows "(defaultCompare a b \<le> 0) = (a \<le> b)"
proof -
  have 1: "str_less (toString a) (toString b) = (a < b)"
    using assms by (rule toString_less)
  have 2: "str_less (toString b) (toString a) = (b < a)"
    using assms [symmetric] by (rule toString_less)
  show ?thesis
    unfolding defaultCompare_def Let_def 1 2 by auto
qed

text \<open>On numbers with the same number of digits the default sort is the numeric sort.\<close>

lemma array_sort_default:
  assumes "\<forall>x\<in>set xs. \<forall>y\<in>set xs. length (toString x) = length (toString y)"
  shows "array_sort defaultCompare xs = sort xs"
proof (rule array_sort_sort_key, intro ballI)
  fix x y assume "x \<in> set xs" "y \<in> set xs"
  then have "length (toString x) = length (toString y)"
    using assms by blast
  then show "(defaultCompare x y \<le> 0) = (x \<le> y)"
    by (rule defaultCompare_le)
qed

lemma loadData_Inr:
  assumes "those (map checkRow rows) = Some data"
  shows "\<exists>ld. loadData rows = Inr ld
      \<and> years ld = slice_last YEARS_COUNT (array_sort defaultCompare (dedup (map yearOf data)))
      \<and> (nested ld, arrays ld) =
          d3_group (filter (\<lambda>d. case (case years ld of [] \<Rightarrow> None | y # _ \<Rightarrow> Some y) of
                                   None \<Rightarrow> False | Some s \<Rightarrow> yearOf d \<ge> s) data) yearOf monthOf"
  using assms by (simp add: loadData_def Let_def split: prod.splits)

lemma loadData_data:
  assumes "loadData rows = Inr ld"
  shows "\<exists>data. those (map checkRow rows) = Some data"
  using assms by (auto simp: loadData_def split: option.splits)

lemma digitChar_simps:
  "digitChar 0 = CHR ''0''" "digitChar 1 = CHR ''1''" "digitChar 2 = CHR ''2''" "digitChar 3 = CHR ''3''"
  "digitChar 4 = CHR ''4''" "digitChar 5 = CHR ''5''" "digitChar 6 = CHR ''6''" "digitChar 7 = CHR ''7''"
  "digitChar 8 = CHR ''8''" "digitChar 9 = CHR ''9''" "digitChar (Suc 0) = CHR ''1''"
  by code_simp+

lemma toString_990_1000:
  "toString 990 = ''990''" "toString 991 = ''991''" "toString 992 = ''992''" "toString 993 = ''993''"
  "toString 994 = ''994''" "toString 995 = ''995''" "toString 996 = ''996''" "toString 997 = ''997''"
  "toString 998 = ''998''" "toString 999 = ''999''" "toString 1000 = ''1000''"
  by (simp_all add: toString.simps digitChar_simps)

lemma data_990_1000:
  "those (map checkRow rows_990_1000) = Some (map (the \<circ> checkRow) rows_990_1000)"
  "map yearOf (map (the \<circ> checkRow) rows_990_1000)
     = [990, 991, 992, 993, 994, 995, 996, 997, 998, 999, 1000]"
  by (simp_all add: rows_990_1000_def newYearRow_def checkRow_def yearOf_def)

lemma data_999_1000:
  "those (map checkRow rows_999_1000) = Some (map (the \<circ> checkRow) rows_999_1000)"
  "map yearOf (map (the \<circ> checkRow) rows_999_1000) = [999, 1000]"
  by (simp_all add: rows_999_1000_def newYearRow_def checkRow_def yearOf_def)

lemma data_2010_2023:
  "those (map checkRow rows_2010_2023) = Some (map (the \<circ> checkRow) rows_2010_2023)"
  "map yearOf (map (the \<circ> checkRow) rows_2010_2023)
     = [2010, 2011, 2012, 2013, 2014, 2015, 2016, 2017, 2018, 2019, 2020, 2021, 2022, 2023]"
  by (simp_all add: rows_2010_2023_def newYearRow_def checkRow_def yearOf_def)

lemma years_990_1000:
  "\<exists>ld. loadData rows_990_1000 = Inr ld
     \<and> years ld = [990, 991, 992, 993, 994, 995, 996, 997, 998, 999]"
proof -
  from loadData_Inr [OF data_990_1000(1)] obtain ld where ld: "loadData rows_990_1000 = Inr ld"
    and ys: "years ld = slice_last YEARS_COUNT (array_sort defaultCompare
               (dedup [990, 991, 992, 993, 994, 995, 996, 997, 998, 999, 1000]))"
    unfolding data_990_1000(2) by blast
  have "years ld = [990, 991, 992, 993, 994, 995, 996, 997, 998, 999]"
    unfolding ys by (simp add: slice_last_def YEARS_COUNT_def defaultCompare_def toString_990_1000)
  with ld show ?thesis by blast
qed

lemma years_999_1000:
  "\<exists>ld. loadData rows_999_1000 = Inr ld \<and> years ld = [1000, 999]"
proof -
  from loadData_Inr [OF data_999_1000(1)] obtain ld where ld: "loadData rows_999_1000 = Inr ld"
    and ys: "years ld = slice_last YEARS_COUNT (array_sort defaultCompare (dedup [999, 1000]))"
    unfolding data_999_1000(2) by blast
  have "years ld = [1000, 999]"
    unfolding ys by (simp add: slice_last_def YEARS_COUNT_def defaultCompare_def toString_990_1000)
  with ld show ?thesis by blast
qed

text \<open>The years loadData selects when all years of the data have the same number of digits.\<close>

lemma loadData_years_same_digits:
  assumes "those (map checkRow rows) = Some data"
    and "\<forall>d\<in>set data. length (toString (yearOf d)) = k"
  shows "\<exists>ld. loadData rows = Inr ld
     \<and> years ld = slice_last YEARS_COUNT (sort (dedup (map yearOf data)))"
proof -
  have "\<forall>x\<in>set (dedup (map yearOf data)). \<forall>y\<in>set (dedup (map yearOf data)).
          length (toString x) = length (toString y)"
    using assms(2) by (auto simp: set_dedup)
  then have "array_sort defaultCompare (dedup (map yearOf data)) = sort (dedup (map yearOf data))"
    by (rule array_sort_default)
  with loadData_Inr [OF assms(1)] show ?thesis by auto
qed

section \<open>The year window (claims C10 and C2)\<close>

text \<open>
  Claim C10. \<open>loadData\<close> orders the distinct years with the default \<open>sort()\<close>, which
  compares them as strings. When all years of the data have the same number of decimal
  digits this is the ascending numeric order and \<open>slice(-YEARS_COUNT)\<close> selects the most
  recent years: the selected years are strictly ascending, are years of the data, are
  \<open>YEARS_COUNT\<close> many or all of them, and every year of the data that is not selected
  is smaller than every selected one. With years of differing digit counts this fails:
  for the years 999 and 1000 the result is \<open>[1000, 999]\<close>, not ascending, and for the
  years 990 to 1000 the window is 990 to 999, without the most recent year 1000.
\<close>

theorem loadData_default_sort_order:
  "(those (map checkRow rows) = Some data \<and> (\<forall>d\<in>set data. length (toString (yearOf d)) = k)
      \<longrightarrow> (\<exists>ld. loadData rows = Inr ld
             \<and> sorted_wrt (<) (years ld)
             \<and> set (years ld) \<subseteq> yearOf ` set data
             \<and> length (years ld) = min YEARS_COUNT (card (yearOf ` set data))
             \<and> (\<forall>y\<in>set (years ld). \<forall>z\<in>yearOf ` set data - set (years ld). z < y)))
   \<and> (\<exists>ld. loadData rows_999_1000 = Inr ld \<and> years ld = [1000, 999] \<and> \<not> sorted (years ld))
   \<and> (\<exists>ld. loadData rows_990_1000 = Inr ld
          \<and> years ld = [990, 991, 992, 993, 994, 995, 996, 997, 998, 999]
          \<and> 1000 \<in> set (map (getFullYear \<circ> the \<circ> row_date) rows_990_1000)
          \<and> 1000 \<notin> set (years ld))"
proof (intro conjI impI)
  assume "those (map checkRow rows) = Some data \<and> (\<forall>d\<in>set data. length (toString (yearOf d)) = k)"
  then have data: "those (map checkRow rows) = Some data"
    and digits: "\<forall>d\<in>set data. length (toString (yearOf d)) = k"
    by simp_all
  let ?ys = "sort (dedup (map yearOf data))"
  from loadData_years_same_digits [OF data digits]
  obtain ld where ld: "loadData rows = Inr ld" and ys: "years ld = slice_last YEARS_COUNT ?ys"
    by blast
  have srt: "sorted ?ys" and dis: "distinct ?ys" and set: "set ?ys = yearOf ` set data"
    by (simp_all add: distinct_dedup set_dedup)
  have len: "length ?ys = card (yearOf ` set data)"
    by (simp add: length_dedup)
  have 1: "sorted_wrt (<) (years ld)"
    unfolding ys using srt dis by (rule slice_last_sorted(1))
  have 2: "set (years ld) \<subseteq> yearOf ` set data"
    unfolding ys using set_slice_last [of YEARS_COUNT ?ys] set by simp
  have 3: "length (years ld) = min YEARS_COUNT (card (yearOf ` set data))"
    unfolding ys by (simp only: length_slice_last len)
  have 4: "\<forall>y\<in>set (years ld). \<forall>z\<in>yearOf ` set data - set (years ld). z < y"
    unfolding ys using slice_last_sorted(2) [OF srt dis, of YEARS_COUNT] set by simp
  show "\<exists>ld. loadData rows = Inr ld
             \<and> sorted_wrt (<) (years ld)
             \<and> set (years ld) \<subseteq> yearOf ` set data
             \<and> length (years ld) = min YEARS_COUNT (card (yearOf ` set data))
             \<and> (\<forall>y\<in>set (years ld). \<forall>z\<in>yearOf ` set data - set (years ld). z < y)"
    using ld 1 2 3 4 by blast
next
  from years_999_1000 obtain ld where "loadData rows_999_1000 = Inr ld" "years ld = [1000, 999]"
    by blast
  moreover from this have "\<not> sorted (years ld)" by simp
  ultimately show "\<exists>ld. loadData rows_999_1000 = Inr ld \<and> years ld = [1000, 999] \<and> \<not> sorted (years ld)"
    by blast
next
  from years_990_1000 obtain ld where ld: "loadData rows_990_1000 = Inr ld"
    "years ld = [990, 991, 992, 993, 994, 995, 996, 997, 998, 999]"
    by blast
  moreover from this have "1000 \<notin> set (years ld)" by simp
  moreover have "1000 \<in> set (map (getFullYear \<circ> the \<circ> row_date) rows_990_1000)"
    by (simp add: rows_990_1000_def newYearRow_def)
  ultimately show "\<exists>ld. loadData rows_990_1000 = Inr ld
          \<and> years ld = [990, 991, 992, 993, 994, 995, 996, 997, 998, 999]
          \<and> 1000 \<in> set (map (getFullYear \<circ> the \<circ> row_date) rows_990_1000)
          \<and> 1000 \<notin> set (years ld)"
    by blast
qed

theorem loadData_default_sort_order_witness:
  "those (map checkRow rows_2010_2023) = Some (map (the \<circ> checkRow) rows_2010_2023)
   \<and> (\<exists>ld. loadData rows_2010_2023 = Inr ld
          \<and> years ld = [2014, 2015, 2016, 2017, 2018, 2019, 2020, 2021, 2022, 2023])"
proof -
  let ?data = "map (the \<circ> checkRow) rows_2010_2023"
  have digits: "\<forall>d\<in>set ?data. length (toString (yearOf d)) = 4"
    by (simp add: rows_2010_2023_def newYearRow_def checkRow_def yearOf_def toString.simps)
  from loadData_default_sort_order [of rows_2010_2023 ?data 4] data_2010_2023(1) digits
  obtain ld where ld: "loadData rows_2010_2023 = Inr ld"
    and s: "sorted_wrt (<) (years ld)"
    and sub: "set (years ld) \<subseteq> yearOf ` set ?data"
    and len: "length (years ld) = min YEARS_COUNT (card (yearOf ` set ?data))"
    and rec: "\<forall>y\<in>set (years ld). \<forall>z\<in>yearOf ` set ?data - set (years ld). z < y"
    by blast
  from loadData_years_same_digits [OF data_2010_2023(1) digits] ld
  have "years ld = slice_last YEARS_COUNT (sort (dedup
          [2010, 2011, 2012, 2013, 2014, 2015, 2016, 2017, 2018, 2019, 2020, 2021, 2022, 2023]))"
    unfolding data_2010_2023(2) by auto
  then have "years ld = [2014, 2015, 2016, 2017, 2018, 2019, 2020, 2021, 2022, 2023]"
    by (simp add: slice_last_def YEARS_COUNT_def)
  with ld data_2010_2023(1) show ?thesis by blast
qed

text \<open>
  Claim C2 at inputs with years of differing digit counts: of the eleven years 990 to
  1000 the year 1000 is not among the ten selected, and the two years 999 and 1000 are
  returned in descending order.
\<close>

theorem loadData_years_mixed_digits:
  "(\<exists>ld. loadData rows_990_1000 = Inr ld
       \<and> years ld = [990, 991, 992, 993, 994, 995, 996, 997, 998, 999])
   \<and> (\<exists>ld. loadData rows_999_1000 = Inr ld \<and> years ld = [1000, 999])"
  using years_990_1000 years_999_1000 by simp

section \<open>Facts about the data\<close>

lemma index_of_Some: "index_of k xs = Some i \<Longrightarrow> i < length xs \<and> xs ! i = k"
  by (induction xs arbitrary: i) (auto split: if_splits)

lemma index_of_None: "(index_of k xs = None) = (k \<notin> set xs)"
  by (induction xs) auto

lemma those_map:
  "those (map f xs) = Some ys \<Longrightarrow> length ys = length xs \<and> (\<forall>i<length xs. f (xs ! i) = Some (ys ! i))"
proof (induction xs arbitrary: ys)
  case Nil
  then show ?case by simp
next
  case (Cons x xs)
  then obtain y ys' where y: "f x = Some y" and ys': "those (map f xs) = Some ys'" and ys: "ys = y # ys'"
    by (auto split: option.splits)
  from Cons.IH [OF ys'] have "length ys' = length xs" "\<forall>i<length xs. f (xs ! i) = Some (ys' ! i)"
    by simp_all
  then show ?case using y ys by (auto simp: nth_Cons split: nat.splits)
qed

text \<open>Every record of the data is a row of the file with its date.\<close>

lemma checkRows_rows:
  assumes "those (map checkRow rows) = Some data" and "d \<in> set data"
  shows "\<exists>r\<in>set rows. row_date r = Some (date d)"
proof -
  from assms(2) obtain i where i: "i < length data" "data ! i = d"
    by (auto simp: in_set_conv_nth)
  from those_map [OF assms(1)] i have "i < length rows" "checkRow (rows ! i) = Some d"
    by auto
  then have "rows ! i \<in> set rows" "row_date (rows ! i) = Some (date d)"
    by (auto simp: checkRow_def split: option.splits)
  then show ?thesis by blast
qed

subsection \<open>d3.group\<close>

lemma d3_group_get2:
  assumes "d3_group vs k1 k2 = (n, h)" and "get2 n y m = Some a"
  shows "a < length h \<and> h ! a = filter (\<lambda>d. (k1 d, k2 d) = (y, m)) vs \<and> h ! a \<noteq> []"
proof -
  let ?keys = "dedup (map (\<lambda>d. (k1 d, k2 d)) vs)"
  from assms(1) have n: "n = (\<lambda>y. if y \<in> set (map fst ?keys) then Some (\<lambda>m. index_of (y, m) ?keys) else None)"
    and h: "h = map (\<lambda>k. filter (\<lambda>d. (k1 d, k2 d) = k) vs) ?keys"
    by (simp_all add: d3_group_def Let_def)
  from assms(2) have "index_of (y, m) ?keys = Some a"
    unfolding n get2_def by (simp split: if_splits)
  from index_of_Some [OF this] have a: "a < length ?keys" and k: "?keys ! a = (y, m)"
    by simp_all
  from a k have "(y, m) \<in> set ?keys" by (metis nth_mem)
  then have "(y, m) \<in> set (map (\<lambda>d. (k1 d, k2 d)) vs)" by (simp only: set_dedup)
  then have ne: "filter (\<lambda>d. (k1 d, k2 d) = (y, m)) vs \<noteq> []"
    by (auto simp: filter_empty_conv)
  have len: "a < length h"
    using a by (simp add: h)
  have arr: "h ! a = filter (\<lambda>d. (k1 d, k2 d) = (y, m)) vs"
    using a k by (simp add: h)
  show ?thesis
    using len ne by (simp only: arr) simp
qed

lemma d3_group_get2_None:
  assumes "d3_group vs k1 k2 = (n, h)" and "\<forall>d\<in>set vs. (k1 d, k2 d) \<noteq> (y, m)"
  shows "get2 n y m = None"
proof -
  let ?keys = "dedup (map (\<lambda>d. (k1 d, k2 d)) vs)"
  from assms(1) have n: "n = (\<lambda>y. if y \<in> set (map fst ?keys) then Some (\<lambda>m. index_of (y, m) ?keys) else None)"
    by (simp add: d3_group_def Let_def)
  have "(y, m) \<notin> set ?keys" using assms(2) by (auto simp: set_dedup)
  then have "index_of (y, m) ?keys = None" by (simp add: index_of_None)
  then show ?thesis unfolding n get2_def by simp
qed

subsection \<open>What loadData returns\<close>

lemma loadData_nested:
  assumes "loadData rows = Inr ld" and "get2 (nested ld) y m = Some a"
  shows "\<exists>data filtered. those (map checkRow rows) = Some data \<and> set filtered \<subseteq> set data
     \<and> a < length (arrays ld)
     \<and> arrays ld ! a = filter (\<lambda>d. (yearOf d, monthOf d) = (y, m)) filtered
     \<and> arrays ld ! a \<noteq> []"
proof -
  from loadData_data [OF assms(1)] obtain data where data: "those (map checkRow rows) = Some data"
    by blast
  from loadData_Inr [OF data] assms(1) obtain filtered where
    f: "set filtered \<subseteq> set data" and g: "d3_group filtered yearOf monthOf = (nested ld, arrays ld)"
    by (metis filter_is_subset sum.inject(2))
  from d3_group_get2 [OF g assms(2)] data f show ?thesis by blast
qed

lemma loadData_distinct_years:
  assumes "loadData rows = Inr ld"
  shows "distinct (years ld)"
proof -
  from loadData_data [OF assms] obtain data where data: "those (map checkRow rows) = Some data"
    by blast
  from loadData_Inr [OF data] assms
  have ys: "years ld = slice_last YEARS_COUNT (array_sort defaultCompare (dedup (map yearOf data)))"
    by auto
  have "mset (array_sort defaultCompare (dedup (map yearOf data))) = mset (dedup (map yearOf data))"
    by (rule mset_array_sort)
  then have "distinct (array_sort defaultCompare (dedup (map yearOf data)))"
    using distinct_dedup by (metis mset_eq_imp_distinct_iff)
  then show ?thesis unfolding ys slice_last_drop by simp
qed

section \<open>Facts about the page\<close>

subsection \<open>What main draws\<close>

lemma main_Inr:
  assumes "main interp l0 rows = Inr p"
  shows "\<exists>ld. loadData rows = Inr ld
     \<and> buildCells (nested ld) (years ld) (arrays ld) = Some (cellsOf p, storeOf p)
     \<and> showMax p = True \<and> modeLabel p = l0
     \<and> groups p = map (cellGroupOf (storeOf p) (xScaleOf p) (yScaleOf p) (buildColourScale interp) True)
                     (cellsOf p)
     \<and> legendOf p = drawLegend (buildColourScale interp) (years ld)
     \<and> xScaleOf p = fst (drawAxes (years ld)) \<and> yScaleOf p = snd (drawAxes (years ld))"
  using assms
  by (auto simp: main_def drawCells_def Let_def split: sum.splits option.splits)

lemma main_eval:
  assumes "loadData rows = Inr ld"
    and "buildCells (nested ld) (years ld) (arrays ld) = Some (cells, h)"
  shows "main interp l0 rows =
     Inr \<lparr>showMax = True, modeLabel = l0,
          groups = map (cellGroupOf h (fst (drawAxes (years ld))) (snd (drawAxes (years ld)))
                     (buildColourScale interp) True) cells,
          legendOf = drawLegend (buildColourScale interp) (years ld), cellsOf = cells,
          xScaleOf = fst (drawAxes (years ld)), yScaleOf = snd (drawAxes (years ld)), storeOf = h\<rparr>"
  using assms by (simp add: main_def drawCells_def Let_def)

lemma loadData_rows2023:
  "loadData [row2, row1, row3]
     = Inr \<lparr>nested = nested2023, years = [2023], arrays = [[day2, day1], [day3]]\<rparr>"
proof -
  have d: "those (map checkRow [row2, row1, row3]) = Some [day2, day1, day3]"
    by (simp add: row1_def row2_def row3_def checkRow_def day1_def day2_def day3_def)
  have f: "yearOf day1 = 2023" "yearOf day2 = 2023" "yearOf day3 = 2023"
    by (simp_all add: yearOf_def day1_def day2_def day3_def)
  have y: "slice_last YEARS_COUNT (array_sort defaultCompare (dedup (map yearOf [day2, day1, day3]))) = [2023]"
    by (simp add: slice_last_def YEARS_COUNT_def f)
  have "snd (d3_group [day2, day1, day3] yearOf monthOf) = [[day2, day1], [day3]]"
    by (simp add: d3_group_def yearOf_def monthOf_def day1_def day2_def day3_def)
  then have g: "d3_group [day2, day1, day3] yearOf monthOf = (nested2023, [[day2, day1], [day3]])"
    unfolding nested2023_def by (metis prod.collapse)
  from loadData_Inr [OF d] obtain ld where ld: "loadData [row2, row1, row3] = Inr ld"
    and ys: "years ld = slice_last YEARS_COUNT (array_sort defaultCompare (dedup (map yearOf [day2, day1, day3])))"
    and gr: "(nested ld, arrays ld) =
          d3_group (filter (\<lambda>d. case (case years ld of [] \<Rightarrow> None | y # _ \<Rightarrow> Some y) of
                                   None \<Rightarrow> False | Some s \<Rightarrow> yearOf d \<ge> s) [day2, day1, day3]) yearOf monthOf"
    by blast
  have ys': "years ld = [2023]"
    using ys y by simp
  have "(nested ld, arrays ld) = (nested2023, [[day2, day1], [day3]])"
    using gr unfolding ys' by (simp add: f g)
  then have "ld = \<lparr>nested = nested2023, years = [2023], arrays = [[day2, day1], [day3]]\<rparr>"
    using ys' by (cases ld) simp
  with ld show ?thesis by simp
qed

lemma buildCells_rows2023:
  "buildCells nested2023 [2023] [[day2, day1], [day3]] = Some ([cellJan, cellFeb], store2023)"
  by (simp add: buildCells_def MONTHS_COUNT_def upt12 nested2023_def d3_group_def get2_def yearOf_def
      monthOf_def day1_def day2_def day3_def spread_def summariseMonth_def d3_max_def d3_min_def
      max_step_def min_step_def byDate_def cellJan_def cellFeb_def store2023_def)

lemma main_rows2023: "main sampleRamp ''Maximum'' [row2, row1, row3] = Inr page2023"
  using main_eval [of "[row2, row1, row3]"
      "\<lparr>nested = nested2023, years = [2023], arrays = [[day2, day1], [day3]]\<rparr>"
      "[cellJan, cellFeb]" store2023 sampleRamp "''Maximum''"]
  by (simp add: loadData_rows2023 buildCells_rows2023 page2023_def)

subsection \<open>Clicks\<close>

lemma recolour_settled:
  assumes "settled g = cellGroupOf h xs ys c sm0 d"
  shows "settled (recolour c sm g) = cellGroupOf h xs ys c sm d"
    and "r_transition (g_rect (recolour c sm g)) = Some 400"
proof -
  obtain cl dt tr rc ch where g: "g = \<lparr>g_class = cl, g_datum = dt, g_translate = tr, g_rect = rc, g_chart = ch\<rparr>"
    by (cases g) simp
  obtain rcl w ht rx fl tn where rc: "rc = \<lparr>r_class = rcl, r_width = w, r_height = ht, r_rx = rx,
      r_fill = fl, r_transition = tn\<rparr>"
    by (cases rc) simp
  from assms show "settled (recolour c sm g) = cellGroupOf h xs ys c sm d"
    by (simp add: g rc settled_def recolour_def cellGroupOf_def)
  from assms show "r_transition (g_rect (recolour c sm g)) = Some 400"
    by (simp add: g rc settled_def recolour_def cellGroupOf_def)
qed

lemma toggleMode_frame:
  "showMax (toggleMode c p) = (\<not> showMax p)"
  "modeLabel (toggleMode c p) = (if showMax p then ''Minimum'' else ''Maximum'')"
  "legendOf (toggleMode c p) = legendOf p"
  "cellsOf (toggleMode c p) = cellsOf p"
  "xScaleOf (toggleMode c p) = xScaleOf p"
  "yScaleOf (toggleMode c p) = yScaleOf p"
  "storeOf (toggleMode c p) = storeOf p"
  "groups (toggleMode c p) = map (recolour c (\<not> showMax p)) (groups p)"
  by (simp_all add: toggleMode_def Let_def)

lemma toggleMode_settled:
  assumes "map settled (groups p) = map (cellGroupOf h xs ys c (showMax p)) cells"
  shows "map settled (groups (toggleMode c p))
       = map (cellGroupOf h xs ys c (showMax (toggleMode c p))) cells"
proof -
  have len: "length (groups p) = length cells"
    using assms by (metis length_map)
  show ?thesis
  proof (rule nth_equalityI)
    show "length (map settled (groups (toggleMode c p)))
        = length (map (cellGroupOf h xs ys c (showMax (toggleMode c p))) cells)"
      by (simp add: toggleMode_frame len)
  next
    fix i assume "i < length (map settled (groups (toggleMode c p)))"
    then have i: "i < length (groups p)" by (simp add: toggleMode_frame)
    then have "settled (groups p ! i) = cellGroupOf h xs ys c (showMax p) (cells ! i)"
      using assms len by (metis nth_map)
    from recolour_settled(1) [OF this]
    show "map settled (groups (toggleMode c p)) ! i
        = map (cellGroupOf h xs ys c (showMax (toggleMode c p))) cells ! i"
      using i len by (simp add: toggleMode_frame)
  qed
qed

lemma clicks_frame:
  "legendOf (clicks c k p) = legendOf p"
  "cellsOf (clicks c k p) = cellsOf p"
  "xScaleOf (clicks c k p) = xScaleOf p"
  "yScaleOf (clicks c k p) = yScaleOf p"
  "storeOf (clicks c k p) = storeOf p"
  by (induction k) (simp_all add: toggleMode_frame)

lemma clicks_settled:
  assumes "map settled (groups p) = map (cellGroupOf h xs ys c (showMax p)) cells"
  shows "map settled (groups (clicks c k p)) = map (cellGroupOf h xs ys c (showMax (clicks c k p))) cells"
proof (induction k)
  case 0
  show ?case using assms by simp
next
  case (Suc k)
  then show ?case by (simp add: toggleMode_settled)
qed

text \<open>
  Every page the program reaches is, up to the transitions started, what drawCells draws
  from the cells under the current mode.
\<close>

lemma reachable_groups:
  assumes "main interp l0 rows = Inr p" and "q = clicks (buildColourScale interp) k p"
  shows "map settled (groups q)
       = map (cellGroupOf (storeOf q) (xScaleOf q) (yScaleOf q) (buildColourScale interp) (showMax q))
           (cellsOf q)"
proof -
  from main_Inr [OF assms(1)] have g: "groups p
      = map (cellGroupOf (storeOf p) (xScaleOf p) (yScaleOf p) (buildColourScale interp) True) (cellsOf p)"
    and sm: "showMax p = True"
    by auto
  have "map settled (groups p)
      = map (cellGroupOf (storeOf p) (xScaleOf p) (yScaleOf p) (buildColourScale interp) (showMax p)) (cellsOf p)"
    unfolding g sm by (simp add: settled_def cellGroupOf_def)
  from clicks_settled [OF this] show ?thesis
    by (simp add: assms(2) clicks_frame)
qed

lemma band_apply_Some: "x \<in> set (b_domain s) \<Longrightarrow> \<exists>v. band_apply s x = Some v"
proof -
  assume "x \<in> set (b_domain s)"
  then have "index_of x (dedup (b_domain s)) \<noteq> None"
    by (simp add: index_of_None set_dedup)
  then show ?thesis
    by (auto simp: band_apply_def Let_def)
qed

lemma drawAxes_scales:
  "fst (drawAxes ys) = \<lparr>b_domain = ys, b_range = (0, real (CELL_WIDTH * length ys)), b_padding = 5 / 100\<rparr>"
  "snd (drawAxes ys) = \<lparr>b_domain = [0..<MONTHS_COUNT], b_range = (0, real (CELL_HEIGHT * MONTHS_COUNT)),
                          b_padding = 5 / 100\<rparr>"
  by (simp_all add: drawAxes_def Let_def)

lemma dedup_months: "dedup [0..<12] = [0, 1, 2, 3, 4, 5, 6, 7, 8, 9, 10, 11]"
  by (simp add: upt12)

text \<open>The height of a cell does not depend on the data.\<close>

lemma bandwidth_yScale: "bandwidth (snd (drawAxes ys)) = 15960 / 241"
  by (simp add: drawAxes_scales bandwidth_def band_step_def Let_def dedup_months CELL_HEIGHT_def
      MONTHS_COUNT_def)

lemma band_positions_2023:
  "band_apply (fst (drawAxes [2023])) 2023 = Some (100 / 21)"
  "bandwidth (fst (drawAxes [2023])) = 1900 / 21"
  "band_apply (snd (drawAxes [2023])) 1 = Some (17640 / 241)"
  "band_apply (snd (drawAxes [2023])) (Suc 0) = Some (17640 / 241)"
  by (simp_all add: drawAxes_scales band_apply_def band_start_def bandwidth_def band_step_def Let_def
      dedup_months CELL_HEIGHT_def CELL_WIDTH_def MONTHS_COUNT_def upt12)

text \<open>The cells main builds: one per year of the window and month with data, in that order.\<close>

lemma main_cells:
  assumes "main interp l0 rows = Inr p"
  shows "\<exists>ld. loadData rows = Inr ld
     \<and> xScaleOf p = fst (drawAxes (years ld)) \<and> yScaleOf p = snd (drawAxes (years ld))
     \<and> legendOf p = drawLegend (buildColourScale interp) (years ld)
     \<and> map (\<lambda>c. (year c, month c)) (cellsOf p)
         = filter (\<lambda>(y, m). get2 (nested ld) y m \<noteq> None) (List.product (years ld) [0..<MONTHS_COUNT])
     \<and> (\<forall>c\<in>set (cellsOf p). days c < length (storeOf p)
           \<and> (\<exists>a. get2 (nested ld) (year c) (month c) = Some a
                \<and> storeOf p ! days c = sort_key (\<lambda>d. timeValue (date d)) (arrays ld ! a)
                \<and> monthlyMax c = d3_max (arrays ld ! a) max_t
                \<and> monthlyMin c = d3_min (arrays ld ! a) min_t))"
proof -
  from main_Inr [OF assms] obtain ld where ld: "loadData rows = Inr ld"
    and run: "buildCells (nested ld) (years ld) (arrays ld) = Some (cellsOf p, storeOf p)"
    and sc: "xScaleOf p = fst (drawAxes (years ld))" "yScaleOf p = snd (drawAxes (years ld))"
    and lg: "legendOf p = drawLegend (buildColourScale interp) (years ld)"
    by blast
  have addr: "\<forall>y m a. get2 (nested ld) y m = Some a \<longrightarrow> a < length (arrays ld)"
    using loadData_nested [OF ld] by blast
  from run have "cellsLoop (nested ld) (List.product (years ld) [0..<MONTHS_COUNT]) [] (arrays ld)
      = Some (cellsOf p, storeOf p)"
    by (simp add: buildCells_def)
  from cellsLoop_cells [OF this addr order_refl]
  have "map (\<lambda>c. (year c, month c)) (cellsOf p)
         = filter (\<lambda>(y, m). get2 (nested ld) y m \<noteq> None) (List.product (years ld) [0..<MONTHS_COUNT])"
    and "\<forall>c\<in>set (cellsOf p). days c < length (storeOf p)
           \<and> (\<exists>a. get2 (nested ld) (year c) (month c) = Some a
                \<and> storeOf p ! days c = sort_key (\<lambda>d. timeValue (date d)) (arrays ld ! a)
                \<and> monthlyMax c = d3_max (arrays ld ! a) max_t
                \<and> monthlyMin c = d3_min (arrays ld ! a) min_t)"
    by auto
  with ld sc lg show ?thesis by blast
qed

lemma main_cells_keys:
  assumes "main interp l0 rows = Inr p"
  shows "distinct (map (\<lambda>c. (year c, month c)) (cellsOf p))"
    and "\<forall>c\<in>set (cellsOf p). year c \<in> set (b_domain (xScaleOf p)) \<and> month c \<in> set (b_domain (yScaleOf p))"
proof -
  from main_cells [OF assms] obtain ld where ld: "loadData rows = Inr ld"
    and sc: "xScaleOf p = fst (drawAxes (years ld))" "yScaleOf p = snd (drawAxes (years ld))"
    and keys: "map (\<lambda>c. (year c, month c)) (cellsOf p)
         = filter (\<lambda>(y, m). get2 (nested ld) y m \<noteq> None) (List.product (years ld) [0..<MONTHS_COUNT])"
    by blast
  have "distinct (List.product (years ld) [0..<MONTHS_COUNT])"
    using loadData_distinct_years [OF ld] by (simp add: distinct_product)
  then show "distinct (map (\<lambda>c. (year c, month c)) (cellsOf p))"
    unfolding keys by (rule distinct_filter)
  show "\<forall>c\<in>set (cellsOf p). year c \<in> set (b_domain (xScaleOf p)) \<and> month c \<in> set (b_domain (yScaleOf p))"
  proof
    fix c assume "c \<in> set (cellsOf p)"
    then have "(year c, month c) \<in> set (map (\<lambda>c. (year c, month c)) (cellsOf p))"
      by (metis (mono_tags, lifting) image_eqI set_map)
    then have "(year c, month c) \<in> set (List.product (years ld) [0..<MONTHS_COUNT])"
      unfolding keys by simp
    then show "year c \<in> set (b_domain (xScaleOf p)) \<and> month c \<in> set (b_domain (yScaleOf p))"
      by (simp add: sc drawAxes_scales)
  qed
qed

text \<open>Every cell has days, and they are records of the file of the cell's year and month.\<close>

lemma main_cells_days:
  assumes "main interp l0 rows = Inr p" and "c \<in> set (cellsOf p)"
  shows "days c < length (storeOf p)" and "storeOf p ! days c \<noteq> []"
    and "\<forall>d\<in>set (storeOf p ! days c). getFullYear (date d) = year c \<and> getMonth (date d) = month c
           \<and> (\<exists>r\<in>set rows. row_date r = Some (date d))"
proof -
  from main_cells [OF assms(1)] assms(2) obtain ld a where ld: "loadData rows = Inr ld"
    and len: "days c < length (storeOf p)"
    and a: "get2 (nested ld) (year c) (month c) = Some a"
    and arr: "storeOf p ! days c = sort_key (\<lambda>d. timeValue (date d)) (arrays ld ! a)"
    by blast
  from loadData_nested [OF ld a] obtain data filtered where
    data: "those (map checkRow rows) = Some data" and sub: "set filtered \<subseteq> set data"
    and grp: "arrays ld ! a = filter (\<lambda>d. (yearOf d, monthOf d) = (year c, month c)) filtered"
    and ne: "arrays ld ! a \<noteq> []"
    by blast
  show "days c < length (storeOf p)" by (rule len)
  have "mset (storeOf p ! days c) = mset (arrays ld ! a)"
    unfolding arr by simp
  then show "storeOf p ! days c \<noteq> []"
    using ne by (metis mset_zero_iff)
  show "\<forall>d\<in>set (storeOf p ! days c). getFullYear (date d) = year c \<and> getMonth (date d) = month c
           \<and> (\<exists>r\<in>set rows. row_date r = Some (date d))"
  proof
    fix d assume "d \<in> set (storeOf p ! days c)"
    then have d: "d \<in> set filtered" "yearOf d = year c" "monthOf d = month c"
      unfolding arr grp by simp_all
    then have "d \<in> set data" using sub by blast
    from checkRows_rows [OF data this] d(2,3)
    show "getFullYear (date d) = year c \<and> getMonth (date d) = month c
           \<and> (\<exists>r\<in>set rows. row_date r = Some (date d))"
      by (simp add: yearOf_def monthOf_def)
  qed
qed

lemma settled_fields:
  assumes "settled g = cellGroupOf h xs ys c sm d"
  shows "g_class g = ''cell-group''" and "g_datum g = d"
    and "g_translate g = (band_apply xs (year d), band_apply ys (month d))"
    and "g_chart g = miniChartOf h (days d) (bandwidth xs) (bandwidth ys)"
    and "r_class (g_rect g) = ''cell''" and "r_width (g_rect g) = bandwidth xs"
    and "r_height (g_rect g) = bandwidth ys" and "r_rx (g_rect g) = 2"
    and "r_fill (g_rect g) = c (if sm then monthlyMax d else monthlyMin d)"
proof -
  obtain cl dt tr rc ch where g: "g = \<lparr>g_class = cl, g_datum = dt, g_translate = tr, g_rect = rc, g_chart = ch\<rparr>"
    by (cases g) simp
  obtain rcl w ht rx fl tn where rc: "rc = \<lparr>r_class = rcl, r_width = w, r_height = ht, r_rx = rx,
      r_fill = fl, r_transition = tn\<rparr>"
    by (cases rc) simp
  from assms have eq: "cl = ''cell-group'' \<and> dt = d
      \<and> tr = (band_apply xs (year d), band_apply ys (month d))
      \<and> ch = miniChartOf h (days d) (bandwidth xs) (bandwidth ys)
      \<and> rcl = ''cell'' \<and> w = bandwidth xs \<and> ht = bandwidth ys \<and> rx = 2
      \<and> fl = c (if sm then monthlyMax d else monthlyMin d)"
    by (simp add: g rc settled_def cellGroupOf_def fillOf_def)
  show "g_class g = ''cell-group''" and "g_datum g = d"
    and "g_translate g = (band_apply xs (year d), band_apply ys (month d))"
    and "g_chart g = miniChartOf h (days d) (bandwidth xs) (bandwidth ys)"
    and "r_class (g_rect g) = ''cell''" and "r_width (g_rect g) = bandwidth xs"
    and "r_height (g_rect g) = bandwidth ys" and "r_rx (g_rect g) = 2"
    and "r_fill (g_rect g) = c (if sm then monthlyMax d else monthlyMin d)"
    using eq by (simp_all add: g rc)
qed

text \<open>The groups of a reachable page, one by one.\<close>

lemma reachable_group:
  assumes "main interp l0 rows = Inr p" and "q = clicks (buildColourScale interp) k p"
  shows "length (groups q) = length (cellsOf q)"
    and "i < length (cellsOf q) \<Longrightarrow>
         settled (groups q ! i)
           = cellGroupOf (storeOf q) (xScaleOf q) (yScaleOf q) (buildColourScale interp) (showMax q)
               (cellsOf q ! i)"
proof -
  note eq = reachable_groups [OF assms]
  show len: "length (groups q) = length (cellsOf q)"
    using eq by (metis length_map)
  show "settled (groups q ! i)
           = cellGroupOf (storeOf q) (xScaleOf q) (yScaleOf q) (buildColourScale interp) (showMax q)
               (cellsOf q ! i)" if "i < length (cellsOf q)"
    using eq that len by (metis nth_map)
qed

lemma reachable_main:
  assumes "main interp l0 rows = Inr p" and "q = clicks (buildColourScale interp) k p"
  shows "cellsOf q = cellsOf p" "storeOf q = storeOf p" "xScaleOf q = xScaleOf p"
    "yScaleOf q = yScaleOf p" "legendOf q = legendOf p"
  by (simp_all add: assms(2) clicks_frame)

lemma miniChartOf_Some:
  assumes "a < length h" and "h ! a \<noteq> []"
  shows "\<exists>mc. miniChartOf h a w ht = Some mc
     \<and> yMini mc = \<lparr>l_domain = (real TEMP_MIN, real TEMP_MAX), l_range = (ht - padding, padding)\<rparr>
     \<and> xMini mc = \<lparr>l_domain = (0, real (length (h ! a)) - 1), l_range = (padding, w - padding)\<rparr>
     \<and> map p_class (paths mc) = [''line-min'', ''line-max'']"
  using assms by (simp add: miniChartOf_def Let_def)

lemma miniChartOf_empty: "a < length h \<and> h ! a = [] \<longrightarrow> miniChartOf h a w ht = None"
  by (simp add: miniChartOf_def)

subsection \<open>main returns\<close>

lemma those_map_Some:
  "\<forall>x\<in>set xs. f x \<noteq> None \<Longrightarrow> \<exists>ys. those (map f xs) = Some ys"
  by (induction xs) auto

text \<open>The loop does not fail when every address in the nested map is an array of the store.\<close>

lemma cellsLoop_returns:
  assumes "\<forall>y m a. get2 n y m = Some a \<longrightarrow> a < n0" and "n0 \<le> length h"
  shows "\<exists>cells' h'. cellsLoop n ks cells h = Some (cells', h')"
  using assms
proof (induction ks arbitrary: cells h)
  case Nil
  show ?case by simp
next
  case (Cons k ks)
  obtain y m where k: "k = (y, m)" by (cases k)
  show ?case
  proof (cases "get2 n y m")
    case None
    then show ?thesis
      unfolding k using Cons.IH [OF Cons.prems] by (simp only: cellsLoop_skip)
  next
    case (Some a)
    have a: "a < length h" using Some Cons.prems by (meson less_le_trans)
    have "n0 \<le> length (h @ [sort_key (\<lambda>d. timeValue (date d)) (h ! a)])"
      using Cons.prems(2) by simp
    from Cons.IH [OF Cons.prems(1) this] show ?thesis
      unfolding k by (simp only: cellsLoop_step [OF Some a])
  qed
qed

text \<open>main draws a page whenever every row of the file has a date.\<close>

lemma main_returns:
  assumes "\<forall>r\<in>set rows. row_date r \<noteq> None"
  shows "\<exists>p. main interp l0 rows = Inr p"
proof -
  have "\<forall>r\<in>set rows. checkRow r \<noteq> None"
    using assms by (auto simp: checkRow_def)
  from those_map_Some [OF this] obtain data where "those (map checkRow rows) = Some data"
    by blast
  from loadData_Inr [OF this] obtain ld where ld: "loadData rows = Inr ld"
    by blast
  have "\<forall>y m a. get2 (nested ld) y m = Some a \<longrightarrow> a < length (arrays ld)"
    using loadData_nested [OF ld] by blast
  from cellsLoop_returns [OF this order_refl]
  obtain cells h where "buildCells (nested ld) (years ld) (arrays ld) = Some (cells, h)"
    unfolding buildCells_def by blast
  from main_eval [OF ld this] show ?thesis by blast
qed

subsection \<open>The cells and the rows of the file\<close>

lemma startYear_filter:
  "(case (case ys of [] \<Rightarrow> None | y # _ \<Rightarrow> Some y) of None \<Rightarrow> False | Some s \<Rightarrow> yearOf d \<ge> s)
     = (case ys of [] \<Rightarrow> False | s # _ \<Rightarrow> s \<le> yearOf d)"
  by (cases ys) simp_all

text \<open>The groups of the nested map are those of the records that pass the filter of loadData.\<close>

lemma loadData_group:
  assumes "loadData rows = Inr ld"
  shows "\<exists>data. those (map checkRow rows) = Some data
     \<and> d3_group (filter (\<lambda>d. case years ld of [] \<Rightarrow> False | s # _ \<Rightarrow> s \<le> yearOf d) data)
           yearOf monthOf = (nested ld, arrays ld)"
proof -
  from loadData_data [OF assms] obtain data where data: "those (map checkRow rows) = Some data"
    by blast
  from loadData_Inr [OF data] assms
  have "(nested ld, arrays ld) =
          d3_group (filter (\<lambda>d. case (case years ld of [] \<Rightarrow> None | y # _ \<Rightarrow> Some y) of
                                   None \<Rightarrow> False | Some s \<Rightarrow> yearOf d \<ge> s) data) yearOf monthOf"
    by auto
  then have "d3_group (filter (\<lambda>d. case years ld of [] \<Rightarrow> False | s # _ \<Rightarrow> s \<le> yearOf d) data)
           yearOf monthOf = (nested ld, arrays ld)"
    by (simp only: startYear_filter)
  with data show ?thesis by blast
qed

lemma d3_group_get2_iff:
  assumes "d3_group vs k1 k2 = (n, h)"
  shows "(get2 n y m \<noteq> None) = (\<exists>d\<in>set vs. k1 d = y \<and> k2 d = m)"
proof
  assume "get2 n y m \<noteq> None"
  then obtain a where "get2 n y m = Some a" by blast
  from d3_group_get2 [OF assms this] have "filter (\<lambda>d. (k1 d, k2 d) = (y, m)) vs \<noteq> []"
    by auto
  then show "\<exists>d\<in>set vs. k1 d = y \<and> k2 d = m"
    by (auto simp: filter_empty_conv)
next
  assume "\<exists>d\<in>set vs. k1 d = y \<and> k2 d = m"
  then have "\<not> (\<forall>d\<in>set vs. (k1 d, k2 d) \<noteq> (y, m))" by auto
  show "get2 n y m \<noteq> None"
  proof
    assume none: "get2 n y m = None"
    let ?keys = "dedup (map (\<lambda>d. (k1 d, k2 d)) vs)"
    from assms have n: "n = (\<lambda>y. if y \<in> set (map fst ?keys) then Some (\<lambda>m. index_of (y, m) ?keys) else None)"
      by (simp add: d3_group_def Let_def)
    from \<open>\<exists>d\<in>set vs. k1 d = y \<and> k2 d = m\<close> have mem: "(y, m) \<in> set ?keys"
      by (auto simp: set_dedup)
    then have "y \<in> set (map fst ?keys)" by force
    with none have "index_of (y, m) ?keys = None"
      unfolding n get2_def by simp
    with mem show False by (simp add: index_of_None)
  qed
qed

text \<open>
  The cells main builds, in terms of the rows: one per year of the window and month that
  some record passing the filter has, each with the aggregates and the sorted copy of
  the records of that year and month.
\<close>

lemma main_cells_data:
  assumes "main interp l0 rows = Inr p"
  shows "\<exists>ld data filtered. loadData rows = Inr ld \<and> those (map checkRow rows) = Some data
     \<and> filtered = filter (\<lambda>d. case years ld of [] \<Rightarrow> False | s # _ \<Rightarrow> s \<le> yearOf d) data
     \<and> xScaleOf p = fst (drawAxes (years ld)) \<and> yScaleOf p = snd (drawAxes (years ld))
     \<and> map (\<lambda>c. (year c, month c)) (cellsOf p)
         = filter (\<lambda>(y, m). \<exists>d\<in>set filtered. yearOf d = y \<and> monthOf d = m)
             (List.product (years ld) [0..<MONTHS_COUNT])
     \<and> (\<forall>c\<in>set (cellsOf p).
           monthlyMax c = d3_max (filter (\<lambda>d. yearOf d = year c \<and> monthOf d = month c) filtered) max_t
         \<and> monthlyMin c = d3_min (filter (\<lambda>d. yearOf d = year c \<and> monthOf d = month c) filtered) min_t
         \<and> days c < length (storeOf p)
         \<and> storeOf p ! days c
             = sort_key (\<lambda>d. timeValue (date d)) (filter (\<lambda>d. yearOf d = year c \<and> monthOf d = month c) filtered))"
proof -
  from main_cells [OF assms] obtain ld where ld: "loadData rows = Inr ld"
    and sc: "xScaleOf p = fst (drawAxes (years ld))" "yScaleOf p = snd (drawAxes (years ld))"
    and keys: "map (\<lambda>c. (year c, month c)) (cellsOf p)
         = filter (\<lambda>(y, m). get2 (nested ld) y m \<noteq> None) (List.product (years ld) [0..<MONTHS_COUNT])"
    and cells: "\<forall>c\<in>set (cellsOf p). days c < length (storeOf p)
           \<and> (\<exists>a. get2 (nested ld) (year c) (month c) = Some a
                \<and> storeOf p ! days c = sort_key (\<lambda>d. timeValue (date d)) (arrays ld ! a)
                \<and> monthlyMax c = d3_max (arrays ld ! a) max_t
                \<and> monthlyMin c = d3_min (arrays ld ! a) min_t)"
    by blast
  from loadData_group [OF ld] obtain data where data: "those (map checkRow rows) = Some data"
    and grp: "d3_group (filter (\<lambda>d. case years ld of [] \<Rightarrow> False | s # _ \<Rightarrow> s \<le> yearOf d) data)
           yearOf monthOf = (nested ld, arrays ld)"
    by blast
  define filtered where
    "filtered = filter (\<lambda>d. case years ld of [] \<Rightarrow> False | s # _ \<Rightarrow> s \<le> yearOf d) data"
  have grp': "d3_group filtered yearOf monthOf = (nested ld, arrays ld)"
    using grp by (simp only: filtered_def)
  have pred: "(\<lambda>(y, m). get2 (nested ld) y m \<noteq> None)
      = (\<lambda>(y, m). \<exists>d\<in>set filtered. yearOf d = y \<and> monthOf d = m)"
    using d3_group_get2_iff [OF grp'] by (intro ext) (simp only: split_paired_all prod.case)
  have 1: "map (\<lambda>c. (year c, month c)) (cellsOf p)
         = filter (\<lambda>(y, m). \<exists>d\<in>set filtered. yearOf d = y \<and> monthOf d = m)
             (List.product (years ld) [0..<MONTHS_COUNT])"
    using keys by (simp only: pred)
  have 2: "\<forall>c\<in>set (cellsOf p).
           monthlyMax c = d3_max (filter (\<lambda>d. yearOf d = year c \<and> monthOf d = month c) filtered) max_t
         \<and> monthlyMin c = d3_min (filter (\<lambda>d. yearOf d = year c \<and> monthOf d = month c) filtered) min_t
         \<and> days c < length (storeOf p)
         \<and> storeOf p ! days c
             = sort_key (\<lambda>d. timeValue (date d)) (filter (\<lambda>d. yearOf d = year c \<and> monthOf d = month c) filtered)"
  proof
    fix c assume "c \<in> set (cellsOf p)"
    with cells obtain a where len: "days c < length (storeOf p)"
      and a: "get2 (nested ld) (year c) (month c) = Some a"
      and arr: "storeOf p ! days c = sort_key (\<lambda>d. timeValue (date d)) (arrays ld ! a)"
      and mx: "monthlyMax c = d3_max (arrays ld ! a) max_t"
      and mn: "monthlyMin c = d3_min (arrays ld ! a) min_t"
      by blast
    from d3_group_get2 [OF grp' a]
    have "arrays ld ! a = filter (\<lambda>d. (yearOf d, monthOf d) = (year c, month c)) filtered"
      by simp
    then have "arrays ld ! a = filter (\<lambda>d. yearOf d = year c \<and> monthOf d = month c) filtered"
      by simp
    with len arr mx mn show "monthlyMax c = d3_max (filter (\<lambda>d. yearOf d = year c \<and> monthOf d = month c) filtered) max_t
         \<and> monthlyMin c = d3_min (filter (\<lambda>d. yearOf d = year c \<and> monthOf d = month c) filtered) min_t
         \<and> days c < length (storeOf p)
         \<and> storeOf p ! days c
             = sort_key (\<lambda>d. timeValue (date d)) (filter (\<lambda>d. yearOf d = year c \<and> monthOf d = month c) filtered)"
      by simp
  qed
  show ?thesis
    using ld data filtered_def sc 1 2 by blast
qed

section \<open>The grid (claim C4)\<close>

text \<open>
  Claim C4. On every page the program reaches (the page drawn by \<open>main\<close>, then any number
  of clicks), \<open>xScale\<close> is the band scale with domain the year list, range
  \<open>[0, CELL_WIDTH * yearCount]\<close> and padding 0.05, \<open>yScale\<close> the band scale with domain
  the month indices 0 to 11, range \<open>[0, CELL_HEIGHT * 12]\<close> and padding 0.05, and there is
  exactly one cell group per month summary of the dataset. The month summaries are
  those of the file: there is one for each year of the year list and month 0 to 11 that
  some record kept by the filter of \<open>loadData\<close> has, in that order, and its
  \<open>monthlyMax\<close>, \<open>monthlyMin\<close> and \<open>days\<close> are \<open>d3.max\<close>, \<open>d3.min\<close> and the
  sorted copy of the records of that year and month. The groups and the summaries
  correspond one to one, no two summaries share a year and month, and the group of a
  summary is translated to \<open>(xScale(year), yScale(month))\<close>, both defined, its rectangle
  has the two bandwidths as width and height and is filled with the colour scale applied
  to \<open>monthlyMax\<close> when \<open>showMax\<close> is true and to \<open>monthlyMin\<close> otherwise.
\<close>

theorem grid_cells:
  assumes "main interp l0 rows = Inr p" and "q = clicks (buildColourScale interp) k p"
  shows "\<exists>ld data filtered. loadData rows = Inr ld \<and> those (map checkRow rows) = Some data
     \<and> filtered = filter (\<lambda>d. case years ld of [] \<Rightarrow> False | s # _ \<Rightarrow> s \<le> yearOf d) data
     \<and> xScaleOf q = \<lparr>b_domain = years ld, b_range = (0, real (CELL_WIDTH * length (years ld))),
                     b_padding = 5 / 100\<rparr>
     \<and> yScaleOf q = \<lparr>b_domain = [0..<MONTHS_COUNT], b_range = (0, real (CELL_HEIGHT * MONTHS_COUNT)),
                     b_padding = 5 / 100\<rparr>
     \<and> map (\<lambda>c. (year c, month c)) (cellsOf q)
         = filter (\<lambda>(y, m). \<exists>d\<in>set filtered. yearOf d = y \<and> monthOf d = m)
             (List.product (years ld) [0..<MONTHS_COUNT])
     \<and> length (groups q) = length (cellsOf q)
     \<and> distinct (map (\<lambda>d. (year d, month d)) (cellsOf q))
     \<and> (\<forall>i<length (cellsOf q).
           monthlyMax (cellsOf q ! i)
             = d3_max (filter (\<lambda>d. yearOf d = year (cellsOf q ! i) \<and> monthOf d = month (cellsOf q ! i))
                 filtered) max_t
         \<and> monthlyMin (cellsOf q ! i)
             = d3_min (filter (\<lambda>d. yearOf d = year (cellsOf q ! i) \<and> monthOf d = month (cellsOf q ! i))
                 filtered) min_t
         \<and> days (cellsOf q ! i) < length (storeOf q)
         \<and> storeOf q ! days (cellsOf q ! i)
             = sort_key (\<lambda>d. timeValue (date d))
                 (filter (\<lambda>d. yearOf d = year (cellsOf q ! i) \<and> monthOf d = month (cellsOf q ! i))
                    filtered)
         \<and> g_datum (groups q ! i) = cellsOf q ! i
         \<and> (\<exists>x y. band_apply (xScaleOf q) (year (cellsOf q ! i)) = Some x
                 \<and> band_apply (yScaleOf q) (month (cellsOf q ! i)) = Some y
                 \<and> g_translate (groups q ! i) = (Some x, Some y))
         \<and> r_width (g_rect (groups q ! i)) = bandwidth (xScaleOf q)
         \<and> r_height (g_rect (groups q ! i)) = bandwidth (yScaleOf q)
         \<and> r_fill (g_rect (groups q ! i))
             = buildColourScale interp
                 (if showMax q then monthlyMax (cellsOf q ! i) else monthlyMin (cellsOf q ! i)))"
proof -
  note same = reachable_main [OF assms]
  from main_cells_data [OF assms(1)] obtain ld data filtered where ld: "loadData rows = Inr ld"
    and data: "those (map checkRow rows) = Some data"
    and fl: "filtered = filter (\<lambda>d. case years ld of [] \<Rightarrow> False | s # _ \<Rightarrow> s \<le> yearOf d) data"
    and sc: "xScaleOf p = fst (drawAxes (years ld))" "yScaleOf p = snd (drawAxes (years ld))"
    and keysp: "map (\<lambda>c. (year c, month c)) (cellsOf p)
         = filter (\<lambda>(y, m). \<exists>d\<in>set filtered. yearOf d = y \<and> monthOf d = m)
             (List.product (years ld) [0..<MONTHS_COUNT])"
    and cellsp: "\<forall>c\<in>set (cellsOf p).
           monthlyMax c = d3_max (filter (\<lambda>d. yearOf d = year c \<and> monthOf d = month c) filtered) max_t
         \<and> monthlyMin c = d3_min (filter (\<lambda>d. yearOf d = year c \<and> monthOf d = month c) filtered) min_t
         \<and> days c < length (storeOf p)
         \<and> storeOf p ! days c
             = sort_key (\<lambda>d. timeValue (date d)) (filter (\<lambda>d. yearOf d = year c \<and> monthOf d = month c) filtered)"
    by blast
  have xs: "xScaleOf q = \<lparr>b_domain = years ld, b_range = (0, real (CELL_WIDTH * length (years ld))),
                     b_padding = 5 / 100\<rparr>"
    and ys: "yScaleOf q = \<lparr>b_domain = [0..<MONTHS_COUNT], b_range = (0, real (CELL_HEIGHT * MONTHS_COUNT)),
                     b_padding = 5 / 100\<rparr>"
    by (simp_all only: same sc drawAxes_scales)
  have keys: "map (\<lambda>c. (year c, month c)) (cellsOf q)
         = filter (\<lambda>(y, m). \<exists>d\<in>set filtered. yearOf d = y \<and> monthOf d = m)
             (List.product (years ld) [0..<MONTHS_COUNT])"
    using keysp by (simp only: same)
  have len: "length (groups q) = length (cellsOf q)"
    by (rule reachable_group(1) [OF assms])
  have dis: "distinct (map (\<lambda>d. (year d, month d)) (cellsOf q))"
    using main_cells_keys(1) [OF assms(1)] by (simp only: same)
  have each: "\<forall>i<length (cellsOf q).
           monthlyMax (cellsOf q ! i)
             = d3_max (filter (\<lambda>d. yearOf d = year (cellsOf q ! i) \<and> monthOf d = month (cellsOf q ! i))
                 filtered) max_t
         \<and> monthlyMin (cellsOf q ! i)
             = d3_min (filter (\<lambda>d. yearOf d = year (cellsOf q ! i) \<and> monthOf d = month (cellsOf q ! i))
                 filtered) min_t
         \<and> days (cellsOf q ! i) < length (storeOf q)
         \<and> storeOf q ! days (cellsOf q ! i)
             = sort_key (\<lambda>d. timeValue (date d))
                 (filter (\<lambda>d. yearOf d = year (cellsOf q ! i) \<and> monthOf d = month (cellsOf q ! i))
                    filtered)
         \<and> g_datum (groups q ! i) = cellsOf q ! i
         \<and> (\<exists>x y. band_apply (xScaleOf q) (year (cellsOf q ! i)) = Some x
                 \<and> band_apply (yScaleOf q) (month (cellsOf q ! i)) = Some y
                 \<and> g_translate (groups q ! i) = (Some x, Some y))
         \<and> r_width (g_rect (groups q ! i)) = bandwidth (xScaleOf q)
         \<and> r_height (g_rect (groups q ! i)) = bandwidth (yScaleOf q)
         \<and> r_fill (g_rect (groups q ! i))
             = buildColourScale interp
                 (if showMax q then monthlyMax (cellsOf q ! i) else monthlyMin (cellsOf q ! i))"
  proof (intro allI impI)
    fix i assume i: "i < length (cellsOf q)"
    note f = settled_fields [OF reachable_group(2) [OF assms i]]
    have mem: "cellsOf q ! i \<in> set (cellsOf p)"
      using i by (simp add: same)
    from cellsp mem have c:
      "monthlyMax (cellsOf q ! i)
         = d3_max (filter (\<lambda>d. yearOf d = year (cellsOf q ! i) \<and> monthOf d = month (cellsOf q ! i))
             filtered) max_t"
      "monthlyMin (cellsOf q ! i)
         = d3_min (filter (\<lambda>d. yearOf d = year (cellsOf q ! i) \<and> monthOf d = month (cellsOf q ! i))
             filtered) min_t"
      "days (cellsOf q ! i) < length (storeOf q)"
      "storeOf q ! days (cellsOf q ! i)
         = sort_key (\<lambda>d. timeValue (date d))
             (filter (\<lambda>d. yearOf d = year (cellsOf q ! i) \<and> monthOf d = month (cellsOf q ! i))
                filtered)"
      by (simp_all only: same)
    from main_cells_keys(2) [OF assms(1)] mem
    have "year (cellsOf q ! i) \<in> set (b_domain (xScaleOf q))"
      and "month (cellsOf q ! i) \<in> set (b_domain (yScaleOf q))"
      by (simp_all add: same)
    then obtain x y where xy: "band_apply (xScaleOf q) (year (cellsOf q ! i)) = Some x"
      "band_apply (yScaleOf q) (month (cellsOf q ! i)) = Some y"
      using band_apply_Some by blast
    have tr: "\<exists>x y. band_apply (xScaleOf q) (year (cellsOf q ! i)) = Some x
                 \<and> band_apply (yScaleOf q) (month (cellsOf q ! i)) = Some y
                 \<and> g_translate (groups q ! i) = (Some x, Some y)"
      using xy f(3) by simp
    show "
           monthlyMax (cellsOf q ! i)
             = d3_max (filter (\<lambda>d. yearOf d = year (cellsOf q ! i) \<and> monthOf d = month (cellsOf q ! i))
                 filtered) max_t
         \<and> monthlyMin (cellsOf q ! i)
             = d3_min (filter (\<lambda>d. yearOf d = year (cellsOf q ! i) \<and> monthOf d = month (cellsOf q ! i))
                 filtered) min_t
         \<and> days (cellsOf q ! i) < length (storeOf q)
         \<and> storeOf q ! days (cellsOf q ! i)
             = sort_key (\<lambda>d. timeValue (date d))
                 (filter (\<lambda>d. yearOf d = year (cellsOf q ! i) \<and> monthOf d = month (cellsOf q ! i))
                    filtered)
         \<and> g_datum (groups q ! i) = cellsOf q ! i
         \<and> (\<exists>x y. band_apply (xScaleOf q) (year (cellsOf q ! i)) = Some x
                 \<and> band_apply (yScaleOf q) (month (cellsOf q ! i)) = Some y
                 \<and> g_translate (groups q ! i) = (Some x, Some y))
         \<and> r_width (g_rect (groups q ! i)) = bandwidth (xScaleOf q)
         \<and> r_height (g_rect (groups q ! i)) = bandwidth (yScaleOf q)
         \<and> r_fill (g_rect (groups q ! i))
             = buildColourScale interp
                 (if showMax q then monthlyMax (cellsOf q ! i) else monthlyMin (cellsOf q ! i))"
      by (intro conjI c f(2) tr f(6) f(7) f(9))
  qed
  show ?thesis
    apply (rule exI [where x = ld])
    apply (rule exI [where x = data])
    apply (rule exI [where x = filtered])
    by (intro conjI ld data fl xs ys keys len dis each)
qed

lemma colour_samples:
  "buildColourScale sampleRamp (Some (Num 14)) = Some ''rgb(253, 150, 65)''"
  "buildColourScale sampleRamp (Some (Num 16)) = Some ''rgb(253, 150, 65)''"
  "buildColourScale sampleRamp (Some (Num 2)) = Some ''rgb(254, 224, 135)''"
  "buildColourScale sampleRamp (Some (Num 8)) = Some ''rgb(254, 224, 135)''"
  by (simp_all add: buildColourScale_def sampleRamp_def TEMP_MIN_def TEMP_MAX_def js_minus_def)

lemma page2023_fields:
  "showMax page2023 = True" "modeLabel page2023 = ''Maximum''"
  "cellsOf page2023 = [cellJan, cellFeb]" "storeOf page2023 = store2023"
  "xScaleOf page2023 = fst (drawAxes [2023])" "yScaleOf page2023 = snd (drawAxes [2023])"
  "legendOf page2023 = drawLegend (buildColourScale sampleRamp) [2023]"
  "groups page2023 = map (cellGroupOf store2023 (fst (drawAxes [2023])) (snd (drawAxes [2023]))
                  (buildColourScale sampleRamp) True) [cellJan, cellFeb]"
  by (simp_all add: page2023_def)

theorem grid_cells_witness:
  "main sampleRamp ''Maximum'' [row2, row1, row3] = Inr page2023
   \<and> map (\<lambda>c. (year c, month c)) (cellsOf page2023) = [(2023, 0), (2023, 1)]
   \<and> length (groups page2023) = 2
   \<and> g_datum (groups page2023 ! 1) = cellFeb
   \<and> monthlyMax (cellsOf page2023 ! 0) = d3_max [day2, day1] max_t
   \<and> storeOf page2023 ! days (cellsOf page2023 ! 0) = [day1, day2]
   \<and> r_fill (g_rect (groups page2023 ! 1)) = Some ''rgb(253, 150, 65)''
   \<and> r_width (g_rect (groups page2023 ! 1)) = 1900 / 21
   \<and> g_translate (groups page2023 ! 1) = (Some (100 / 21), Some (17640 / 241))"
proof -
  have q: "page2023 = clicks (buildColourScale sampleRamp) 0 page2023" by simp
  have d: "those (map checkRow [row2, row1, row3]) = Some [day2, day1, day3]"
    by (simp add: row1_def row2_def row3_def checkRow_def day1_def day2_def day3_def)
  have yrs: "loadData [row2, row1, row3] = Inr ld \<Longrightarrow> years ld = [2023]" for ld
    using loadData_rows2023 by auto
  have ym: "yearOf day1 = 2023" "yearOf day2 = 2023" "yearOf day3 = 2023"
    "monthOf day1 = 0" "monthOf day2 = 0" "monthOf day3 = 1"
    by (simp_all add: yearOf_def monthOf_def day1_def day2_def day3_def)
  from grid_cells [OF main_rows2023 q]
  obtain ld data filtered where ld: "loadData [row2, row1, row3] = Inr ld"
    and data: "those (map checkRow [row2, row1, row3]) = Some data"
    and fl: "filtered = filter (\<lambda>d. case years ld of [] \<Rightarrow> False | s # _ \<Rightarrow> s \<le> yearOf d) data"
    and keys: "map (\<lambda>c. (year c, month c)) (cellsOf page2023)
         = filter (\<lambda>(y, m). \<exists>d\<in>set filtered. yearOf d = y \<and> monthOf d = m)
             (List.product (years ld) [0..<MONTHS_COUNT])"
    and len: "length (groups page2023) = length (cellsOf page2023)"
    and each: "\<forall>i<length (cellsOf page2023).
           monthlyMax (cellsOf page2023 ! i)
             = d3_max (filter (\<lambda>d. yearOf d = year (cellsOf page2023 ! i) \<and> monthOf d = month (cellsOf page2023 ! i))
                 filtered) max_t
         \<and> monthlyMin (cellsOf page2023 ! i)
             = d3_min (filter (\<lambda>d. yearOf d = year (cellsOf page2023 ! i) \<and> monthOf d = month (cellsOf page2023 ! i))
                 filtered) min_t
         \<and> days (cellsOf page2023 ! i) < length (storeOf page2023)
         \<and> storeOf page2023 ! days (cellsOf page2023 ! i)
             = sort_key (\<lambda>d. timeValue (date d))
                 (filter (\<lambda>d. yearOf d = year (cellsOf page2023 ! i) \<and> monthOf d = month (cellsOf page2023 ! i))
                    filtered)
         \<and> g_datum (groups page2023 ! i) = cellsOf page2023 ! i
         \<and> (\<exists>x y. band_apply (xScaleOf page2023) (year (cellsOf page2023 ! i)) = Some x
                 \<and> band_apply (yScaleOf page2023) (month (cellsOf page2023 ! i)) = Some y
                 \<and> g_translate (groups page2023 ! i) = (Some x, Some y))
         \<and> r_width (g_rect (groups page2023 ! i)) = bandwidth (xScaleOf page2023)
         \<and> r_height (g_rect (groups page2023 ! i)) = bandwidth (yScaleOf page2023)
         \<and> r_fill (g_rect (groups page2023 ! i))
             = buildColourScale sampleRamp
                 (if showMax page2023 then monthlyMax (cellsOf page2023 ! i) else monthlyMin (cellsOf page2023 ! i))"
    by blast
  have data': "data = [day2, day1, day3]"
    using data d by simp
  have filtered: "filtered = [day2, day1, day3]"
    unfolding fl data' yrs [OF ld] by (simp add: ym)
  have k: "map (\<lambda>c. (year c, month c)) (cellsOf page2023) = [(2023, 0), (2023, 1)]"
    unfolding keys filtered yrs [OF ld] by (simp add: MONTHS_COUNT_def upt12 ym)
  have 0: "(0::nat) < length (cellsOf page2023)" and 1: "(1::nat) < length (cellsOf page2023)"
    by (simp_all add: page2023_fields)
  have c0: "year (cellsOf page2023 ! 0) = 2023" "month (cellsOf page2023 ! 0) = 0"
    by (simp_all add: page2023_fields cellJan_def)
  from each 0 have
    "monthlyMax (cellsOf page2023 ! 0)
       = d3_max (filter (\<lambda>d. yearOf d = year (cellsOf page2023 ! 0) \<and> monthOf d = month (cellsOf page2023 ! 0))
           filtered) max_t"
    and "storeOf page2023 ! days (cellsOf page2023 ! 0)
       = sort_key (\<lambda>d. timeValue (date d))
           (filter (\<lambda>d. yearOf d = year (cellsOf page2023 ! 0) \<and> monthOf d = month (cellsOf page2023 ! 0))
              filtered)"
    by blast+
  moreover have "filter (\<lambda>d. yearOf d = 2023 \<and> monthOf d = 0) [day2, day1, day3] = [day2, day1]"
    by (simp add: ym)
  moreover have "sort_key (\<lambda>d. timeValue (date d)) [day2, day1] = [day1, day2]"
    by (simp add: day1_def day2_def)
  ultimately have j: "monthlyMax (cellsOf page2023 ! 0) = d3_max [day2, day1] max_t"
    "storeOf page2023 ! days (cellsOf page2023 ! 0) = [day1, day2]"
    by (simp_all only: c0 filtered)
  from each 1 have "g_datum (groups page2023 ! 1) = cellsOf page2023 ! 1"
    and "\<exists>x y. band_apply (xScaleOf page2023) (year (cellsOf page2023 ! 1)) = Some x
                 \<and> band_apply (yScaleOf page2023) (month (cellsOf page2023 ! 1)) = Some y
                 \<and> g_translate (groups page2023 ! 1) = (Some x, Some y)"
    and "r_width (g_rect (groups page2023 ! 1)) = bandwidth (xScaleOf page2023)"
    and "r_fill (g_rect (groups page2023 ! 1))
             = buildColourScale sampleRamp
                 (if showMax page2023 then monthlyMax (cellsOf page2023 ! 1)
                  else monthlyMin (cellsOf page2023 ! 1))"
    by blast+
  then have f: "g_datum (groups page2023 ! 1) = cellFeb"
    "r_fill (g_rect (groups page2023 ! 1)) = Some ''rgb(253, 150, 65)''"
    "r_width (g_rect (groups page2023 ! 1)) = 1900 / 21"
    "g_translate (groups page2023 ! 1) = (Some (100 / 21), Some (17640 / 241))"
    by (auto simp: page2023_fields cellFeb_def colour_samples band_positions_2023)
  have l: "length (groups page2023) = 2"
    using len by (simp add: page2023_fields)
  show ?thesis
    by (intro conjI main_rows2023 k l f j)
qed

section \<open>The mode toggle (claims C5 and C6)\<close>

lemma settled_fill: "r_fill (g_rect (settled g)) = r_fill (g_rect g)"
  by (simp add: settled_def)

lemma clicks_showMax_Suc: "showMax (clicks c (Suc k) p) = (\<not> showMax (clicks c k p))"
  by (simp add: toggleMode_frame)

text \<open>
  Claim C5. From every page the program reaches, in either mode, two consecutive toggles
  return \<open>showMax\<close> to its value and give every cell the fill it had before the first
  toggle.
\<close>

theorem toggle_twice:
  assumes "main interp l0 rows = Inr p" and "q = clicks (buildColourScale interp) k p"
  shows "showMax (toggleMode (buildColourScale interp) (toggleMode (buildColourScale interp) q)) = showMax q
     \<and> map (\<lambda>g. r_fill (g_rect g))
          (groups (toggleMode (buildColourScale interp) (toggleMode (buildColourScale interp) q)))
       = map (\<lambda>g. r_fill (g_rect g)) (groups q)"
proof -
  let ?c = "buildColourScale interp"
  let ?q2 = "toggleMode ?c (toggleMode ?c q)"
  have q2: "?q2 = clicks ?c (Suc (Suc k)) p"
    by (simp add: assms(2))
  have sm: "showMax ?q2 = showMax q"
    by (simp add: toggleMode_frame)
  have fr: "cellsOf ?q2 = cellsOf q" "storeOf ?q2 = storeOf q" "xScaleOf ?q2 = xScaleOf q"
    "yScaleOf ?q2 = yScaleOf q"
    by (simp_all add: toggleMode_frame)
  have "map settled (groups ?q2) = map settled (groups q)"
    using reachable_groups [OF assms(1) q2] reachable_groups [OF assms]
    by (simp only: sm fr)
  then have "map (\<lambda>g. r_fill (g_rect g)) (map settled (groups ?q2))
      = map (\<lambda>g. r_fill (g_rect g)) (map settled (groups q))"
    by (rule arg_cong)
  then have "map (\<lambda>g. r_fill (g_rect g)) (groups ?q2) = map (\<lambda>g. r_fill (g_rect g)) (groups q)"
    by (simp add: settled_fill comp_def)
  with sm show ?thesis by blast
qed

lemma groups_page2023:
  "map (\<lambda>g. r_fill (g_rect g)) (groups page2023) = [Some ''rgb(253, 150, 65)'', Some ''rgb(253, 150, 65)'']"
  by (simp add: page2023_fields cellGroupOf_def fillOf_def cellJan_def cellFeb_def colour_samples)

lemma groups_toggled2023:
  "map (\<lambda>g. r_fill (g_rect g)) (groups (toggleMode (buildColourScale sampleRamp) page2023))
     = [Some ''rgb(254, 224, 135)'', Some ''rgb(254, 224, 135)'']"
  by (simp add: toggleMode_frame page2023_fields recolour_def cellGroupOf_def fillOf_def cellJan_def
      cellFeb_def colour_samples)

theorem toggle_twice_witness:
  "main sampleRamp ''Maximum'' [row2, row1, row3] = Inr page2023
   \<and> showMax (toggleMode (buildColourScale sampleRamp) (toggleMode (buildColourScale sampleRamp)
        (toggleMode (buildColourScale sampleRamp) page2023))) = False
   \<and> map (\<lambda>g. r_fill (g_rect g))
        (groups (toggleMode (buildColourScale sampleRamp) (toggleMode (buildColourScale sampleRamp)
          (toggleMode (buildColourScale sampleRamp) page2023))))
      = [Some ''rgb(254, 224, 135)'', Some ''rgb(254, 224, 135)'']"
proof -
  have q: "toggleMode (buildColourScale sampleRamp) page2023
      = clicks (buildColourScale sampleRamp) 1 page2023"
    by simp
  from toggle_twice [OF main_rows2023 q] main_rows2023 show ?thesis
    by (simp only: groups_toggled2023) (simp add: toggleMode_frame page2023_fields)
qed

text \<open>
  Claim C6. A toggle on a page the program reaches flips \<open>showMax\<close>, sets the mode label
  to "Maximum" when \<open>showMax\<close> becomes true and to "Minimum" otherwise, and starts on every
  cell a transition of 400 ms to the colour scale applied to the newly active field.
  Nothing else changes: the cells and the arrays of days (no aggregation is redone), the
  two band scales, the legend, and of every cell group the class, the bound cell, the
  translation, the mini chart, and the class, width, height and corner radius of its
  rectangle.
\<close>

theorem toggle_frame:
  assumes "main interp l0 rows = Inr p" and "q = clicks (buildColourScale interp) k p"
    and "q' = toggleMode (buildColourScale interp) q"
  shows "showMax q' = (\<not> showMax q)
     \<and> modeLabel q' = (if showMax q' then ''Maximum'' else ''Minimum'')
     \<and> cellsOf q' = cellsOf q \<and> storeOf q' = storeOf q
     \<and> xScaleOf q' = xScaleOf q \<and> yScaleOf q' = yScaleOf q
     \<and> legendOf q' = legendOf q
     \<and> length (groups q') = length (groups q)
     \<and> (\<forall>i<length (groups q).
           g_class (groups q' ! i) = g_class (groups q ! i)
         \<and> g_datum (groups q' ! i) = g_datum (groups q ! i)
         \<and> g_translate (groups q' ! i) = g_translate (groups q ! i)
         \<and> g_chart (groups q' ! i) = g_chart (groups q ! i)
         \<and> r_class (g_rect (groups q' ! i)) = r_class (g_rect (groups q ! i))
         \<and> r_width (g_rect (groups q' ! i)) = r_width (g_rect (groups q ! i))
         \<and> r_height (g_rect (groups q' ! i)) = r_height (g_rect (groups q ! i))
         \<and> r_rx (g_rect (groups q' ! i)) = r_rx (g_rect (groups q ! i))
         \<and> r_fill (g_rect (groups q' ! i))
             = buildColourScale interp
                 (if showMax q' then monthlyMax (g_datum (groups q ! i))
                  else monthlyMin (g_datum (groups q ! i)))
         \<and> r_transition (g_rect (groups q' ! i)) = Some 400)"
proof -
  let ?c = "buildColourScale interp"
  have q': "q' = clicks ?c (Suc k) p"
    by (simp add: assms(2,3))
  have len: "length (groups q') = length (groups q)"
    by (simp add: assms(3) toggleMode_frame)
  have lenc: "length (groups q) = length (cellsOf q)"
    by (rule reachable_group(1) [OF assms(1,2)])
  have fr: "cellsOf q' = cellsOf q" "storeOf q' = storeOf q" "xScaleOf q' = xScaleOf q"
    "yScaleOf q' = yScaleOf q" "legendOf q' = legendOf q"
    by (simp_all add: assms(3) toggleMode_frame)
  have sm: "showMax q' = (\<not> showMax q)"
    by (simp add: assms(3) toggleMode_frame)
  have lb: "modeLabel q' = (if showMax q' then ''Maximum'' else ''Minimum'')"
    by (simp add: assms(3) toggleMode_frame)
  have each: "\<forall>i<length (groups q).
           g_class (groups q' ! i) = g_class (groups q ! i)
         \<and> g_datum (groups q' ! i) = g_datum (groups q ! i)
         \<and> g_translate (groups q' ! i) = g_translate (groups q ! i)
         \<and> g_chart (groups q' ! i) = g_chart (groups q ! i)
         \<and> r_class (g_rect (groups q' ! i)) = r_class (g_rect (groups q ! i))
         \<and> r_width (g_rect (groups q' ! i)) = r_width (g_rect (groups q ! i))
         \<and> r_height (g_rect (groups q' ! i)) = r_height (g_rect (groups q ! i))
         \<and> r_rx (g_rect (groups q' ! i)) = r_rx (g_rect (groups q ! i))
         \<and> r_fill (g_rect (groups q' ! i))
             = buildColourScale interp
                 (if showMax q' then monthlyMax (g_datum (groups q ! i))
                  else monthlyMin (g_datum (groups q ! i)))
         \<and> r_transition (g_rect (groups q' ! i)) = Some 400"
  proof (intro allI impI)
    fix i assume i: "i < length (groups q)"
    then have ic: "i < length (cellsOf q)" "i < length (cellsOf q')"
      using lenc fr by simp_all
    note old = settled_fields [OF reachable_group(2) [OF assms(1,2) ic(1)]]
    note new = settled_fields [OF reachable_group(2) [OF assms(1) q' ic(2)]]
    have tr: "r_transition (g_rect (groups q' ! i)) = Some 400"
      using recolour_settled(2) [OF reachable_group(2) [OF assms(1,2) ic(1)]] i
      by (simp add: assms(3) toggleMode_frame)
    show "g_class (groups q' ! i) = g_class (groups q ! i)
         \<and> g_datum (groups q' ! i) = g_datum (groups q ! i)
         \<and> g_translate (groups q' ! i) = g_translate (groups q ! i)
         \<and> g_chart (groups q' ! i) = g_chart (groups q ! i)
         \<and> r_class (g_rect (groups q' ! i)) = r_class (g_rect (groups q ! i))
         \<and> r_width (g_rect (groups q' ! i)) = r_width (g_rect (groups q ! i))
         \<and> r_height (g_rect (groups q' ! i)) = r_height (g_rect (groups q ! i))
         \<and> r_rx (g_rect (groups q' ! i)) = r_rx (g_rect (groups q ! i))
         \<and> r_fill (g_rect (groups q' ! i))
             = buildColourScale interp
                 (if showMax q' then monthlyMax (g_datum (groups q ! i))
                  else monthlyMin (g_datum (groups q ! i)))
         \<and> r_transition (g_rect (groups q' ! i)) = Some 400"
      using old new tr by (simp add: fr)
  qed
  show ?thesis
    by (intro conjI sm lb fr len each)
qed

theorem toggle_frame_witness:
  "main sampleRamp ''Maximum'' [row2, row1, row3] = Inr page2023
   \<and> showMax (toggleMode (buildColourScale sampleRamp) page2023) = False
   \<and> modeLabel (toggleMode (buildColourScale sampleRamp) page2023) = ''Minimum''
   \<and> map (\<lambda>g. r_fill (g_rect g)) (groups (toggleMode (buildColourScale sampleRamp) page2023))
      = [Some ''rgb(254, 224, 135)'', Some ''rgb(254, 224, 135)'']
   \<and> legendOf (toggleMode (buildColourScale sampleRamp) page2023) = legendOf page2023
   \<and> storeOf (toggleMode (buildColourScale sampleRamp) page2023) = store2023"
proof -
  have q: "page2023 = clicks (buildColourScale sampleRamp) 0 page2023" by simp
  from toggle_frame [OF main_rows2023 q refl]
  have "showMax (toggleMode (buildColourScale sampleRamp) page2023) = (\<not> showMax page2023)"
    and "modeLabel (toggleMode (buildColourScale sampleRamp) page2023)
       = (if showMax (toggleMode (buildColourScale sampleRamp) page2023) then ''Maximum'' else ''Minimum'')"
    and "legendOf (toggleMode (buildColourScale sampleRamp) page2023) = legendOf page2023"
    and "storeOf (toggleMode (buildColourScale sampleRamp) page2023) = storeOf page2023"
    by blast+
  then show ?thesis
    using main_rows2023 groups_toggled2023 by (simp add: page2023_fields)
qed

section \<open>Mini charts and absent months (claims C7 and C8)\<close>

text \<open>The mini chart of every group of a reachable page.\<close>

lemma reachable_chart:
  assumes "main interp l0 rows = Inr p" and "q = clicks (buildColourScale interp) k p"
    and "g \<in> set (groups q)"
  shows "g_datum g \<in> set (cellsOf q)"
    and "days (g_datum g) < length (storeOf q)" and "storeOf q ! days (g_datum g) \<noteq> []"
    and "g_chart g = miniChartOf (storeOf q) (days (g_datum g)) (bandwidth (xScaleOf q)) (bandwidth (yScaleOf q))"
proof -
  note same = reachable_main [OF assms(1,2)]
  from assms(3) obtain i where i: "i < length (groups q)" and g: "groups q ! i = g"
    by (auto simp: in_set_conv_nth)
  have ic: "i < length (cellsOf q)"
    using i reachable_group(1) [OF assms(1,2)] by simp
  note f = settled_fields [OF reachable_group(2) [OF assms(1,2) ic]]
  show c: "g_datum g \<in> set (cellsOf q)"
    using f(2) ic g by simp
  then have cp: "g_datum g \<in> set (cellsOf p)"
    by (simp add: same)
  show "days (g_datum g) < length (storeOf q)" and "storeOf q ! days (g_datum g) \<noteq> []"
    using main_cells_days(1,2) [OF assms(1) cp] by (simp_all add: same)
  show "g_chart g = miniChartOf (storeOf q) (days (g_datum g)) (bandwidth (xScaleOf q)) (bandwidth (yScaleOf q))"
    using f(2,4) g by simp
qed

text \<open>
  Claim C7. Every cell of a page the program reaches has a mini chart whose y scale has
  the domain \<open>[TEMP_MIN, TEMP_MAX] = [0, 40]\<close> and the range
  \<open>[height - padding, padding]\<close> with padding 4, whatever the cell's data, and whose x scale
  has the domain \<open>[0, days.length - 1]\<close> and the range \<open>[padding, width - padding]\<close>,
  width and height being the bandwidths. So any two cells have the same y scale, and
  different x domains when their numbers of days differ. The range of the y scale is
  inverted: its first end is the greater one.
\<close>

theorem miniChart_scales:
  assumes "main interp l0 rows = Inr p" and "q = clicks (buildColourScale interp) k p"
  shows "(\<forall>g\<in>set (groups q). \<exists>mc. g_chart g = Some mc
            \<and> yMini mc = \<lparr>l_domain = (0, 40), l_range = (bandwidth (yScaleOf q) - 4, 4)\<rparr>
            \<and> xMini mc = \<lparr>l_domain = (0, real (length (storeOf q ! days (g_datum g))) - 1),
                           l_range = (4, bandwidth (xScaleOf q) - 4)\<rparr>)
     \<and> (\<forall>g1\<in>set (groups q). \<forall>g2\<in>set (groups q). \<exists>m1 m2.
            g_chart g1 = Some m1 \<and> g_chart g2 = Some m2 \<and> yMini m1 = yMini m2
            \<and> (length (storeOf q ! days (g_datum g1)) \<noteq> length (storeOf q ! days (g_datum g2))
                 \<longrightarrow> l_domain (xMini m1) \<noteq> l_domain (xMini m2)))
     \<and> real TEMP_MIN = 0 \<and> real TEMP_MAX = 40 \<and> padding = 4
     \<and> padding < bandwidth (yScaleOf q) - padding"
proof -
  from main_Inr [OF assms(1)] obtain ld :: loaded where "yScaleOf p = snd (drawAxes (years ld))"
    by blast
  then have "bandwidth (yScaleOf q) = 15960 / 241"
    by (simp add: reachable_main(4) [OF assms] bandwidth_yScale)
  then have inv: "padding < bandwidth (yScaleOf q) - padding"
    by (simp add: padding_def)
  have chart: "\<exists>mc. g_chart g = Some mc
            \<and> yMini mc = \<lparr>l_domain = (0, 40), l_range = (bandwidth (yScaleOf q) - 4, 4)\<rparr>
            \<and> xMini mc = \<lparr>l_domain = (0, real (length (storeOf q ! days (g_datum g))) - 1),
                           l_range = (4, bandwidth (xScaleOf q) - 4)\<rparr>"
    if "g \<in> set (groups q)" for g
  proof -
    note r = reachable_chart [OF assms that]
    from miniChartOf_Some [OF r(2,3), of "bandwidth (xScaleOf q)" "bandwidth (yScaleOf q)"]
    show ?thesis
      by (auto simp: r(4) TEMP_MIN_def TEMP_MAX_def padding_def)
  qed
  have pair: "\<exists>m1 m2. g_chart g1 = Some m1 \<and> g_chart g2 = Some m2 \<and> yMini m1 = yMini m2
            \<and> (length (storeOf q ! days (g_datum g1)) \<noteq> length (storeOf q ! days (g_datum g2))
                 \<longrightarrow> l_domain (xMini m1) \<noteq> l_domain (xMini m2))"
    if "g1 \<in> set (groups q)" "g2 \<in> set (groups q)" for g1 g2
  proof -
    from chart [OF that(1)] obtain m1 where m1: "g_chart g1 = Some m1"
      "yMini m1 = \<lparr>l_domain = (0, 40), l_range = (bandwidth (yScaleOf q) - 4, 4)\<rparr>"
      "xMini m1 = \<lparr>l_domain = (0, real (length (storeOf q ! days (g_datum g1))) - 1),
                           l_range = (4, bandwidth (xScaleOf q) - 4)\<rparr>"
      by blast
    from chart [OF that(2)] obtain m2 where m2: "g_chart g2 = Some m2"
      "yMini m2 = \<lparr>l_domain = (0, 40), l_range = (bandwidth (yScaleOf q) - 4, 4)\<rparr>"
      "xMini m2 = \<lparr>l_domain = (0, real (length (storeOf q ! days (g_datum g2))) - 1),
                           l_range = (4, bandwidth (xScaleOf q) - 4)\<rparr>"
      by blast
    show ?thesis
      using m1 m2 by simp
  qed
  show ?thesis
    using chart pair inv by (simp add: TEMP_MIN_def TEMP_MAX_def padding_def)
qed

lemma charts_page2023:
  "map (\<lambda>g. map_option (\<lambda>mc. l_domain (xMini mc)) (g_chart g)) (groups page2023)
     = [Some (0, 1), Some (0, 0)]"
  by (simp add: page2023_fields cellGroupOf_def miniChartOf_def store2023_def cellJan_def cellFeb_def
      Let_def)

theorem miniChart_scales_witness:
  "main sampleRamp ''Maximum'' [row2, row1, row3] = Inr page2023
   \<and> map (\<lambda>g. map_option (\<lambda>mc. l_domain (xMini mc)) (g_chart g)) (groups page2023)
       = [Some (0, 1), Some (0, 0)]
   \<and> (\<exists>m1 m2. g_chart (groups page2023 ! 0) = Some m1 \<and> g_chart (groups page2023 ! 1) = Some m2
         \<and> yMini m1 = yMini m2 \<and> l_domain (yMini m1) = (0, 40))"
proof -
  have q: "page2023 = clicks (buildColourScale sampleRamp) 0 page2023" by simp
  have g: "groups page2023 ! 0 \<in> set (groups page2023)" "groups page2023 ! 1 \<in> set (groups page2023)"
    by (simp_all add: page2023_fields)
  from miniChart_scales [OF main_rows2023 q] g
  obtain m1 m2 where "g_chart (groups page2023 ! 0) = Some m1"
    "yMini m1 = \<lparr>l_domain = (0, 40), l_range = (bandwidth (yScaleOf page2023) - 4, 4)\<rparr>"
    "g_chart (groups page2023 ! 1) = Some m2"
    "yMini m2 = \<lparr>l_domain = (0, 40), l_range = (bandwidth (yScaleOf page2023) - 4, 4)\<rparr>"
    by blast
  then have "\<exists>m1 m2. g_chart (groups page2023 ! 0) = Some m1 \<and> g_chart (groups page2023 ! 1) = Some m2
         \<and> yMini m1 = yMini m2 \<and> l_domain (yMini m1) = (0, 40)"
    by simp
  with main_rows2023 charts_page2023 show ?thesis by blast
qed

text \<open>
  Claim C8. On every page the program reaches the cell groups are those of the month
  summaries; for a year and month that no row of the file has, there is no summary and
  no cell; every summary, and so every cell drawn, has a non-empty array of days (and a
  mini chart); and the mini chart renderer draws nothing for an empty array of days.
\<close>

theorem cells_have_records:
  assumes "main interp l0 rows = Inr p" and "q = clicks (buildColourScale interp) k p"
  shows "map g_datum (groups q) = cellsOf q
     \<and> (\<forall>y m. (\<forall>r\<in>set rows. \<forall>d. row_date r = Some d \<longrightarrow> \<not> (getFullYear d = y \<and> getMonth d = m))
           \<longrightarrow> (\<forall>c\<in>set (cellsOf q). (year c, month c) \<noteq> (y, m))
             \<and> (\<forall>g\<in>set (groups q). (year (g_datum g), month (g_datum g)) \<noteq> (y, m)))
     \<and> (\<forall>c\<in>set (cellsOf q). days c < length (storeOf q) \<and> storeOf q ! days c \<noteq> [])
     \<and> (\<forall>g\<in>set (groups q). days (g_datum g) < length (storeOf q)
           \<and> storeOf q ! days (g_datum g) \<noteq> [] \<and> g_chart g \<noteq> None)
     \<and> (\<forall>h a w ht. a < length h \<and> h ! a = [] \<longrightarrow> miniChartOf h a w ht = None)"
proof -
  note same = reachable_main [OF assms]
  have data: "map g_datum (groups q) = cellsOf q"
  proof (rule nth_equalityI)
    show "length (map g_datum (groups q)) = length (cellsOf q)"
      using reachable_group(1) [OF assms] by simp
  next
    fix i assume "i < length (map g_datum (groups q))"
    then have i: "i < length (groups q)" "i < length (cellsOf q)"
      using reachable_group(1) [OF assms] by simp_all
    from settled_fields(2) [OF reachable_group(2) [OF assms i(2)]] i(1)
    show "map g_datum (groups q) ! i = cellsOf q ! i" by simp
  qed
  have cells: "days c < length (storeOf q) \<and> storeOf q ! days c \<noteq> []" if "c \<in> set (cellsOf q)" for c
    using main_cells_days(1,2) [OF assms(1), of c] that by (simp add: same)
  have absent: "(year c, month c) \<noteq> (y, m)"
    if none: "\<forall>r\<in>set rows. \<forall>d. row_date r = Some d \<longrightarrow> \<not> (getFullYear d = y \<and> getMonth d = m)"
      and c: "c \<in> set (cellsOf q)" for y m c
  proof
    assume ym: "(year c, month c) = (y, m)"
    have cp: "c \<in> set (cellsOf p)" using c by (simp add: same)
    from main_cells_days(2) [OF assms(1) cp] obtain d where d: "d \<in> set (storeOf p ! days c)"
      by (cases "storeOf p ! days c") auto
    from main_cells_days(3) [OF assms(1) cp] d obtain r where "r \<in> set rows"
      "row_date r = Some (date d)" "getFullYear (date d) = year c" "getMonth (date d) = month c"
      by blast
    with none ym show False by auto
  qed
  have groups: "days (g_datum g) < length (storeOf q) \<and> storeOf q ! days (g_datum g) \<noteq> []
      \<and> g_chart g \<noteq> None" if "g \<in> set (groups q)" for g
  proof -
    note r = reachable_chart [OF assms that]
    from miniChartOf_Some [OF r(2,3), of "bandwidth (xScaleOf q)" "bandwidth (yScaleOf q)"] r
    show ?thesis by auto
  qed
  have gabsent: "(year (g_datum g), month (g_datum g)) \<noteq> (y, m)"
    if "\<forall>r\<in>set rows. \<forall>d. row_date r = Some d \<longrightarrow> \<not> (getFullYear d = y \<and> getMonth d = m)"
      and "g \<in> set (groups q)" for y m g
    using absent [OF that(1) reachable_chart(1) [OF assms that(2)]] .
  show ?thesis
    using data cells absent groups gabsent miniChartOf_empty by blast
qed

theorem cells_have_records_witness:
  "main sampleRamp ''Maximum'' [row2, row1, row3] = Inr page2023
   \<and> map (\<lambda>c. (year c, month c)) (cellsOf page2023) = [(2023, 0), (2023, 1)]
   \<and> (2023, 2) \<notin> set (map (\<lambda>c. (year c, month c)) (cellsOf page2023))
   \<and> map (\<lambda>c. length (storeOf page2023 ! days c)) (cellsOf page2023) = [2, 1]
   \<and> miniChartOf [[]] 0 95 66 = None"
proof -
  have q: "page2023 = clicks (buildColourScale sampleRamp) 0 page2023" by simp
  have none: "\<forall>r\<in>set [row2, row1, row3]. \<forall>d. row_date r = Some d
      \<longrightarrow> \<not> (getFullYear d = 2023 \<and> getMonth d = 2)"
    by (simp add: row1_def row2_def row3_def)
  from cells_have_records [OF main_rows2023 q] none
  have "\<forall>c\<in>set (cellsOf page2023). (year c, month c) \<noteq> (2023, 2)"
    and "miniChartOf [[]] 0 95 66 = None"
    by auto
  then have "(2023, 2) \<notin> set (map (\<lambda>c. (year c, month c)) (cellsOf page2023))"
    and "miniChartOf [[]] 0 95 66 = None"
    by auto
  then show ?thesis
    using main_rows2023
    by (simp add: page2023_fields cellJan_def cellFeb_def store2023_def)
qed

section \<open>The legend (claim C9)\<close>

lemma degreesC_labels:
  "degreesC TEMP_MIN = [CHR ''0'', CHR '' '', CHR 0xB0, CHR ''C'']"
  "degreesC TEMP_MAX = [CHR ''4'', CHR ''0'', CHR '' '', CHR 0xB0, CHR ''C'']"
  by (simp_all add: degreesC_def TEMP_MIN_def TEMP_MAX_def toString.simps digitChar_simps)
    code_simp+

lemma drawLegend_stops:
  "length (lg_stops (drawLegend c ys)) = 11"
  "i < 11 \<Longrightarrow> lg_stops (drawLegend c ys) ! i
     = \<lparr>s_offset = real i / 10 * 100,
        s_color = c (Some (Num (real TEMP_MIN + (real TEMP_MAX - real TEMP_MIN) * (real i / 10))))\<rparr>"
  by (simp_all add: drawLegend_def Let_def del: upt_Suc)

lemma drawLegend_box:
  "lg_x (drawLegend c ys) = CELL_WIDTH * length ys + 30"
  "lg_y (drawLegend c ys) = 0"
  "lg_height (drawLegend c ys) = CELL_HEIGHT * MONTHS_COUNT"
  "lg_width (drawLegend c ys) = 18"
  "lg_rx (drawLegend c ys) = 3"
  "lg_fill (drawLegend c ys) = ''url(#temp-gradient)''"
  "lg_id (drawLegend c ys) = ''temp-gradient''"
  "lg_vector (drawLegend c ys) = (''0%'', ''0%'', ''0%'', ''100%'')"
  "lg_labels (drawLegend c ys)
     = [\<lparr>t_class = ''legend-label'', t_x = CELL_WIDTH * length ys + 30 + 18 + 5, t_y = 10,
         t_text = degreesC TEMP_MIN\<rparr>,
        \<lparr>t_class = ''legend-label'', t_x = CELL_WIDTH * length ys + 30 + 18 + 5,
         t_y = CELL_HEIGHT * MONTHS_COUNT, t_text = degreesC TEMP_MAX\<rparr>]"
  by (simp_all add: drawLegend_def Let_def)

text \<open>
  Claim C9. The legend of every page the program reaches has 11 stops, evenly spaced at
  the fractions \<open>t = i / 10\<close>, the stop at \<open>t\<close> coloured by the colour scale at
  \<open>TEMP_MIN + (TEMP_MAX - TEMP_MIN) * t\<close>, the same colour scale that fills the cells;
  \<open>TEMP_MIN\<close> is 0 and \<open>TEMP_MAX\<close> is 40; its labels are \<open>0 \<degree>C\<close> at y = 10, the top,
  and \<open>40 \<degree>C\<close> at the bottom of the bar; and it is at
  \<open>x = CELL_WIDTH * yearCount + 30\<close>, to the right of the grid, which ends at
  \<open>CELL_WIDTH * yearCount\<close>. The bar is 18 wide and \<open>CELL_HEIGHT * 12 = 840\<close> high from
  y = 0, filled with the gradient \<open>temp-gradient\<close>, whose vector runs from the top (0%)
  to the bottom (100%), so the stop of \<open>TEMP_MIN\<close> is at the top; the two labels are
  beside the bar at y = 10 and y = 840.
\<close>

theorem legend_of_colour_scale:
  assumes "main interp l0 rows = Inr p" and "q = clicks (buildColourScale interp) k p"
  shows "\<exists>ld. loadData rows = Inr ld
     \<and> length (lg_stops (legendOf q)) = 11
     \<and> (\<forall>i<11. lg_stops (legendOf q) ! i
           = \<lparr>s_offset = real i / 10 * 100,
              s_color = buildColourScale interp
                 (Some (Num (real TEMP_MIN + (real TEMP_MAX - real TEMP_MIN) * (real i / 10))))\<rparr>)
     \<and> (\<forall>g\<in>set (groups q). r_fill (g_rect g)
           = buildColourScale interp (if showMax q then monthlyMax (g_datum g) else monthlyMin (g_datum g)))
     \<and> TEMP_MIN = 0 \<and> TEMP_MAX = 40
     \<and> map t_text (lg_labels (legendOf q))
         = [[CHR ''0'', CHR '' '', CHR 0xB0, CHR ''C''], [CHR ''4'', CHR ''0'', CHR '' '', CHR 0xB0, CHR ''C'']]
     \<and> map t_y (lg_labels (legendOf q)) = [10, lg_y (legendOf q) + lg_height (legendOf q)]
     \<and> lg_y (legendOf q) = 0
     \<and> lg_x (legendOf q) = CELL_WIDTH * length (years ld) + 30
     \<and> snd (b_range (xScaleOf q)) = real (CELL_WIDTH * length (years ld))
     \<and> snd (b_range (xScaleOf q)) < real (lg_x (legendOf q))
     \<and> lg_id (legendOf q) = ''temp-gradient''
     \<and> lg_vector (legendOf q) = (''0%'', ''0%'', ''0%'', ''100%'')
     \<and> lg_fill (legendOf q) = ''url(#temp-gradient)''
     \<and> lg_width (legendOf q) = 18 \<and> lg_rx (legendOf q) = 3
     \<and> lg_height (legendOf q) = CELL_HEIGHT * MONTHS_COUNT \<and> lg_height (legendOf q) = 840
     \<and> lg_labels (legendOf q)
         = [\<lparr>t_class = ''legend-label'', t_x = lg_x (legendOf q) + lg_width (legendOf q) + 5,
             t_y = 10, t_text = [CHR ''0'', CHR '' '', CHR 0xB0, CHR ''C'']\<rparr>,
            \<lparr>t_class = ''legend-label'', t_x = lg_x (legendOf q) + lg_width (legendOf q) + 5,
             t_y = 840, t_text = [CHR ''4'', CHR ''0'', CHR '' '', CHR 0xB0, CHR ''C'']\<rparr>]"
proof -
  note same = reachable_main [OF assms]
  from main_cells [OF assms(1)] obtain ld where ld: "loadData rows = Inr ld"
    and xs: "xScaleOf p = fst (drawAxes (years ld))"
    and lg: "legendOf p = drawLegend (buildColourScale interp) (years ld)"
    by blast
  have lq: "legendOf q = drawLegend (buildColourScale interp) (years ld)"
    by (simp only: same lg)
  have 1: "length (lg_stops (legendOf q)) = 11"
    unfolding lq by (rule drawLegend_stops(1))
  have 2: "\<forall>i<11. lg_stops (legendOf q) ! i
           = \<lparr>s_offset = real i / 10 * 100,
              s_color = buildColourScale interp
                 (Some (Num (real TEMP_MIN + (real TEMP_MAX - real TEMP_MIN) * (real i / 10))))\<rparr>"
    unfolding lq using drawLegend_stops(2) by blast
  have 3: "\<forall>g\<in>set (groups q). r_fill (g_rect g)
           = buildColourScale interp (if showMax q then monthlyMax (g_datum g) else monthlyMin (g_datum g))"
  proof
    fix g assume "g \<in> set (groups q)"
    then obtain i where i: "i < length (groups q)" and g: "groups q ! i = g"
      by (auto simp: in_set_conv_nth)
    have ic: "i < length (cellsOf q)"
      using i reachable_group(1) [OF assms] by simp
    note f = settled_fields [OF reachable_group(2) [OF assms ic]]
    show "r_fill (g_rect g)
           = buildColourScale interp (if showMax q then monthlyMax (g_datum g) else monthlyMin (g_datum g))"
      using f(2,9) g by simp
  qed
  have 4: "TEMP_MIN = 0" "TEMP_MAX = 40"
    by (simp_all add: TEMP_MIN_def TEMP_MAX_def)
  have 5: "map t_text (lg_labels (legendOf q))
         = [[CHR ''0'', CHR '' '', CHR 0xB0, CHR ''C''], [CHR ''4'', CHR ''0'', CHR '' '', CHR 0xB0, CHR ''C'']]"
    unfolding lq by (simp add: drawLegend_box degreesC_labels)
  have 6: "map t_y (lg_labels (legendOf q)) = [10, lg_y (legendOf q) + lg_height (legendOf q)]"
    unfolding lq by (simp add: drawLegend_box)
  have 7: "lg_y (legendOf q) = 0" "lg_x (legendOf q) = CELL_WIDTH * length (years ld) + 30"
    unfolding lq by (simp_all add: drawLegend_box)
  have 8: "snd (b_range (xScaleOf q)) = real (CELL_WIDTH * length (years ld))"
    by (simp only: same xs drawAxes_scales) simp
  have 9: "snd (b_range (xScaleOf q)) < real (lg_x (legendOf q))"
    by (simp only: 7 8)
  have 10: "lg_id (legendOf q) = ''temp-gradient''"
    "lg_vector (legendOf q) = (''0%'', ''0%'', ''0%'', ''100%'')"
    "lg_fill (legendOf q) = ''url(#temp-gradient)''"
    "lg_width (legendOf q) = 18" "lg_rx (legendOf q) = 3"
    "lg_height (legendOf q) = CELL_HEIGHT * MONTHS_COUNT"
    unfolding lq by (simp_all add: drawLegend_box)
  have 11: "lg_height (legendOf q) = 840"
    unfolding lq by (simp add: drawLegend_box CELL_HEIGHT_def MONTHS_COUNT_def)
  have 12: "lg_labels (legendOf q)
         = [\<lparr>t_class = ''legend-label'', t_x = lg_x (legendOf q) + lg_width (legendOf q) + 5,
             t_y = 10, t_text = [CHR ''0'', CHR '' '', CHR 0xB0, CHR ''C'']\<rparr>,
            \<lparr>t_class = ''legend-label'', t_x = lg_x (legendOf q) + lg_width (legendOf q) + 5,
             t_y = 840, t_text = [CHR ''4'', CHR ''0'', CHR '' '', CHR 0xB0, CHR ''C'']\<rparr>]"
    unfolding lq by (simp add: drawLegend_box degreesC_labels CELL_HEIGHT_def MONTHS_COUNT_def)
  show ?thesis
    apply (rule exI [where x = ld])
    by (intro conjI ld 1 2 3 4 5 6 7 8 9 10 11 12)
qed

theorem legend_of_colour_scale_witness:
  "main sampleRamp ''Maximum'' [row2, row1, row3] = Inr page2023
   \<and> length (lg_stops (legendOf page2023)) = 11
   \<and> lg_stops (legendOf page2023) ! 0 = \<lparr>s_offset = 0, s_color = Some ''rgb(254, 224, 135)''\<rparr>
   \<and> lg_stops (legendOf page2023) ! 10 = \<lparr>s_offset = 100, s_color = Some ''rgb(253, 150, 65)''\<rparr>
   \<and> lg_x (legendOf page2023) = 130
   \<and> lg_width (legendOf page2023) = 18 \<and> lg_height (legendOf page2023) = 840
   \<and> map t_y (lg_labels (legendOf page2023)) = [10, 840]
   \<and> map t_x (lg_labels (legendOf page2023)) = [153, 153]"
proof -
  have q: "page2023 = clicks (buildColourScale sampleRamp) 0 page2023" by simp
  from loadData_rows2023
  have ld: "loadData [row2, row1, row3] = Inr ld \<Longrightarrow> years ld = [2023]" for ld
    by auto
  from legend_of_colour_scale [OF main_rows2023 q] obtain ld where
    "loadData [row2, row1, row3] = Inr ld"
    and len: "length (lg_stops (legendOf page2023)) = 11"
    and st: "\<forall>i<11. lg_stops (legendOf page2023) ! i
           = \<lparr>s_offset = real i / 10 * 100,
              s_color = buildColourScale sampleRamp
                 (Some (Num (real TEMP_MIN + (real TEMP_MAX - real TEMP_MIN) * (real i / 10))))\<rparr>"
    and x: "lg_x (legendOf page2023) = CELL_WIDTH * length (years ld) + 30"
    and box: "lg_width (legendOf page2023) = 18" "lg_height (legendOf page2023) = 840"
    and lb: "lg_labels (legendOf page2023)
         = [\<lparr>t_class = ''legend-label'',
             t_x = lg_x (legendOf page2023) + lg_width (legendOf page2023) + 5,
             t_y = 10, t_text = [CHR ''0'', CHR '' '', CHR 0xB0, CHR ''C'']\<rparr>,
            \<lparr>t_class = ''legend-label'',
             t_x = lg_x (legendOf page2023) + lg_width (legendOf page2023) + 5,
             t_y = 840, t_text = [CHR ''4'', CHR ''0'', CHR '' '', CHR 0xB0, CHR ''C'']\<rparr>]"
    by blast
  from this(1) have ys: "years ld = [2023]" by (rule ld)
  have s0: "lg_stops (legendOf page2023) ! 0 = \<lparr>s_offset = 0, s_color = Some ''rgb(254, 224, 135)''\<rparr>"
    using st by (simp add: buildColourScale_def sampleRamp_def TEMP_MIN_def TEMP_MAX_def js_minus_def)
  have s10: "lg_stops (legendOf page2023) ! 10 = \<lparr>s_offset = 100, s_color = Some ''rgb(253, 150, 65)''\<rparr>"
    using st by (simp add: buildColourScale_def sampleRamp_def TEMP_MIN_def TEMP_MAX_def js_minus_def)
  show ?thesis
    using main_rows2023 len s0 s10 x box lb by (simp add: ys CELL_WIDTH_def)
qed

end
